theory Spec2Isabelle
  imports Main "HOL-Library.Sublist"
begin

section \<open>JavaScript primitives used by the sources\<close>

text \<open>
  Strings are lists of 16-bit code units, each given by its high and its low byte; a
  text of code units below 256 is written \<open>js\<close> of a string literal. Numbers that
  the sources use as lengths, offsets and page numbers are natural numbers; the
  navigation index, which takes the value \<open>-1\<close>, is an integer.
\<close>

definition js_rem :: "int \<Rightarrow> int \<Rightarrow> int" where
  \<comment> \<open>the remainder operator \<open>%\<close>: the result has the sign of the dividend\<close>
  "js_rem a b = sgn a * (\<bar>a\<bar> mod \<bar>b\<bar>)"

datatype code_unit = Unit char char

type_synonym jstring = "code_unit list"

definition low :: "char \<Rightarrow> code_unit" where
  \<comment> \<open>the code unit below 256 with the given low byte\<close>
  "low c = Unit (CHR 0x00) c"

definition js :: "string \<Rightarrow> jstring" where
  \<comment> \<open>a text of code units below 256, written as a string literal\<close>
  "js s = map low s"

definition digit_char :: "nat \<Rightarrow> code_unit" where
  \<comment> \<open>the decimal digit for a number below ten\<close>
  "digit_char n = js ''0123456789'' ! n"

fun toString :: "nat \<Rightarrow> jstring" where
  \<comment> \<open>decimal rendering of a non-negative integer, as a template literal does\<close>
  "toString n = (if n < 10 then [digit_char n] else toString (n div 10) @ [digit_char (n mod 10)])"

declare toString.simps [simp del]

definition isWhiteSpace :: "code_unit \<Rightarrow> bool" where
  \<comment> \<open>the class \<open>\s\<close> and the characters \<open>trim\<close> strips, white space and line
      terminators: U+0009 to U+000D, U+0020, U+00A0, U+1680, U+2000 to U+200A, U+2028,
      U+2029, U+202F, U+205F, U+3000 and U+FEFF\<close>
  "isWhiteSpace c \<longleftrightarrow>
     c \<in> set (js [CHR 0x09, CHR 0x0A, CHR 0x0B, CHR 0x0C, CHR 0x0D, CHR 0x20, CHR 0xA0]) \<or>
     c = Unit (CHR 0x16) (CHR 0x80) \<or>
     c \<in> set (map (Unit (CHR 0x20))
                [CHR 0x00, CHR 0x01, CHR 0x02, CHR 0x03, CHR 0x04, CHR 0x05, CHR 0x06, CHR 0x07,
                 CHR 0x08, CHR 0x09, CHR 0x0A, CHR 0x28, CHR 0x29, CHR 0x2F, CHR 0x5F]) \<or>
     c = Unit (CHR 0x30) (CHR 0x00) \<or>
     c = Unit (CHR 0xFE) (CHR 0xFF)"

definition trim :: "jstring \<Rightarrow> jstring" where
  "trim s = rev (dropWhile isWhiteSpace (rev (dropWhile isWhiteSpace s)))"

definition lower_char :: "char \<Rightarrow> char" where
  \<comment> \<open>below 256: \<open>A\<close> to \<open>Z\<close> and the capital letters of the upper half (all of 0xC0
      to 0xDE but the multiplication sign) move up by 32\<close>
  "lower_char c =
     (let n = (of_char c :: nat)
      in if (65 \<le> n \<and> n \<le> 90) \<or> (192 \<le> n \<and> n \<le> 222 \<and> n \<noteq> 215)
         then char_of (n + 32) else c)"

text \<open>
  \<open>toLowerCase\<close> follows the case mappings of the Unicode standard. The model has the
  mappings of the code units below 256 and the one mapping of the standard that changes
  the length of a text: U+0130, the capital I with a dot above, becomes the two code units
  U+0069 and U+0307. Every other capital letter of the standard becomes one code unit
  (or, outside the basic plane, two code units become two); those are left as they are
  here. The statements below that depend on how a letter is mapped are about texts of
  code units below 256 and the letter U+0130.
\<close>

fun lower_unit :: "code_unit \<Rightarrow> jstring" where
  "lower_unit (Unit hi lo) =
     (if hi = CHR 0x00 then [Unit hi (lower_char lo)]
      else if hi = CHR 0x01 \<and> lo = CHR 0x30 then [low (CHR ''i''), Unit (CHR 0x03) (CHR 0x07)]
      else [Unit hi lo])"

definition toLowerCase :: "jstring \<Rightarrow> jstring" where
  "toLowerCase s = concat (map lower_unit s)"

fun below_256 :: "code_unit \<Rightarrow> bool" where
  "below_256 (Unit hi lo) \<longleftrightarrow> hi = CHR 0x00"

fun lower_ascii :: "code_unit \<Rightarrow> code_unit" where
  \<comment> \<open>what the flag \<open>i\<close> of a regular expression identifies with a letter \<open>a\<close> to
      \<open>z\<close>: the letter and its capital, and no code unit from 128 on\<close>
  "lower_ascii (Unit hi lo) =
     (if hi = CHR 0x00 \<and> 65 \<le> (of_char lo :: nat) \<and> (of_char lo :: nat) \<le> 90
      then Unit hi (char_of ((of_char lo :: nat) + 32)) else Unit hi lo)"

fun find_from :: "jstring \<Rightarrow> jstring \<Rightarrow> nat \<Rightarrow> nat option" where
  \<comment> \<open>the first position at which \<open>needle\<close> starts in the rest of the text, the rest
      beginning at position \<open>p\<close>\<close>
  "find_from needle [] p = (if needle = [] then Some p else None)"
| "find_from needle (c # cs) p =
     (if prefix needle (c # cs) then Some p else find_from needle cs (Suc p))"

definition indexOf :: "jstring \<Rightarrow> jstring \<Rightarrow> nat \<Rightarrow> nat option" where
  \<comment> \<open>\<open>hay.indexOf(needle, from)\<close>, with \<open>None\<close> for \<open>-1\<close>; the start position is
      clamped to the length of the text\<close>
  "indexOf hay needle from =
     (let k = min from (length hay) in find_from needle (drop k hay) k)"

section \<open>The highlight list of \<open>ContractViewer\<close>\<close>

record bounds =
  x_px :: int
  y_px :: int
  width_px :: int
  height_px :: int

record HighlightInstance =
  id_hl :: jstring
  pageNumber :: nat
  text_hl :: jstring
  bounds_hl :: bounds

text \<open>
  The two state cells of \<open>ContractViewer\<close> that the highlight navigation reads and
  writes: \<open>highlights\<close> and \<open>currentHighlight\<close>.
\<close>

record ViewerState =
  highlights :: "HighlightInstance list"
  currentHighlight :: int

datatype direction = Next | Prev

definition initialViewerState :: ViewerState where
  "initialViewerState = \<lparr>highlights = [], currentHighlight = -1\<rparr>"

definition handleHighlightNavigation :: "direction \<Rightarrow> ViewerState \<Rightarrow> ViewerState" where
  "handleHighlightNavigation d s =
     (if length (highlights s) = 0 then s
      else case d of
        Next \<Rightarrow> s\<lparr>currentHighlight :=
                  js_rem (currentHighlight s + 1) (int (length (highlights s)))\<rparr>
      | Prev \<Rightarrow> s\<lparr>currentHighlight :=
                  js_rem (currentHighlight s - 1 + int (length (highlights s)))
                         (int (length (highlights s)))\<rparr>)"

definition addHighlights :: "HighlightInstance list \<Rightarrow> ViewerState \<Rightarrow> ViewerState" where
  "addHighlights newHighlights s =
     s\<lparr>highlights := newHighlights,
       currentHighlight := (if length newHighlights > 0 then 0 else -1)\<rparr>"

definition handleFileUpload :: "ViewerState \<Rightarrow> ViewerState" where
  \<comment> \<open>the part of the upload handler that touches the highlight state, for a PDF file\<close>
  "handleFileUpload s = s\<lparr>highlights := [], currentHighlight := -1\<rparr>"

inductive reachable :: "ViewerState \<Rightarrow> bool" where
  init: "reachable initialViewerState"
| add: "reachable s \<Longrightarrow> reachable (addHighlights hs s)"
| nav: "reachable s \<Longrightarrow> reachable (handleHighlightNavigation d s)"
| upload: "reachable s \<Longrightarrow> reachable (handleFileUpload s)"

definition state_ok :: "ViewerState \<Rightarrow> bool" where
  "state_ok s \<longleftrightarrow>
     (currentHighlight s = -1 \<longleftrightarrow> highlights s = []) \<and>
     (highlights s \<noteq> [] \<longrightarrow>
        0 \<le> currentHighlight s \<and> currentHighlight s < int (length (highlights s)))"

definition two_highlights :: "HighlightInstance list" where
  \<comment> \<open>a sample list, used to instantiate the statements below\<close>
  "two_highlights =
     [\<lparr>id_hl = (js ''exact-highlight-0-15''), pageNumber = 1, text_hl = (js ''first''),
        bounds_hl = \<lparr>x_px = 50, y_px = 100, width_px = 30, height_px = 16\<rparr>\<rparr>,
      \<lparr>id_hl = (js ''exact-highlight-1-40''), pageNumber = 2, text_hl = (js ''second''),
        bounds_hl = \<lparr>x_px = 50, y_px = 100, width_px = 36, height_px = 16\<rparr>\<rparr>]"

section \<open>The text layer of \<open>PDFViewer\<close>\<close>

text \<open>
  One entry of a page's text map: the text of a text item and the bounds of the element
  drawn for it. The bounds are computed by the renderer and are kept abstract. The map's
  keys are the item indices \<open>0, 1, \<dots>\<close> in insertion order, so a page's map is a list and
  its entries are the list with its positions.
\<close>

record 'b textData =
  text_td :: jstring
  bounds_td :: 'b

record 'b elementPosition =
  startIndex :: nat
  endIndex :: nat
  bounds_ep :: 'b
  text_ep :: jstring
  index_ep :: nat

record 'b textMatch =
  elements :: "'b elementPosition list"
  matchStart :: nat
  matchEnd :: nat
  searchText :: jstring

fun elementPositions_loop ::
  "(nat \<times> 'b textData) list \<Rightarrow> jstring \<times> 'b elementPosition list \<Rightarrow>
     jstring \<times> 'b elementPosition list" where
  "elementPositions_loop [] acc = acc"
| "elementPositions_loop ((index, textData) # rest) (fullPageText, elementPositions) =
     elementPositions_loop rest
       (fullPageText @ text_td textData @ (js '' ''),
        elementPositions @
          [\<lparr>startIndex = length fullPageText,
            endIndex = length fullPageText + length (text_td textData),
            bounds_ep = bounds_td textData,
            text_ep = text_td textData,
            index_ep = index\<rparr>])"

definition matchingElements ::
  "'b elementPosition list \<Rightarrow> nat \<Rightarrow> nat \<Rightarrow> 'b elementPosition list" where
  "matchingElements elementPositions mStart mEnd =
     filter (\<lambda>pos. startIndex pos \<le> mEnd \<and> endIndex pos \<ge> mStart) elementPositions"

text \<open>
  The search loop of \<open>findTextInTextLayer\<close>. It ends when \<open>indexOf\<close> finds nothing;
  a run that never ends has the value \<open>None\<close>.
\<close>

partial_function (option) search_loop ::
  "jstring \<Rightarrow> jstring \<Rightarrow> 'b elementPosition list \<Rightarrow> nat \<Rightarrow> 'b textMatch list \<Rightarrow>
     'b textMatch list option" where
  "search_loop cleanFullText cleanSearchText elementPositions searchIndex matches =
     (case indexOf cleanFullText cleanSearchText searchIndex of
        None \<Rightarrow> Some matches
      | Some foundIndex \<Rightarrow>
          (let mStart = foundIndex;
               mEnd = foundIndex + length cleanSearchText;
               found = matchingElements elementPositions mStart mEnd
           in search_loop cleanFullText cleanSearchText elementPositions (foundIndex + 1)
                (if length found > 0
                 then matches @ [\<lparr>elements = found, matchStart = mStart, matchEnd = mEnd,
                                   searchText = cleanSearchText\<rparr>]
                 else matches)))"

declare search_loop.simps [code]

definition findTextInTextLayer ::
  "(nat \<rightharpoonup> 'b textData list) \<Rightarrow> jstring \<Rightarrow> nat \<Rightarrow> 'b textMatch list option" where
  "findTextInTextLayer pageTextMaps searchTxt pageNum =
     (case pageTextMaps pageNum of
        None \<Rightarrow> Some []
      | Some textMap \<Rightarrow>
          (let cleanSearchText = trim (toLowerCase searchTxt);
               (fullPageText, elementPositions) =
                  elementPositions_loop (enumerate 0 textMap) ([], []);
               cleanFullText = toLowerCase fullPageText
           in search_loop cleanFullText cleanSearchText elementPositions 0 []))"

text \<open>
  \<open>applyTextHighlights\<close>: after clearing the old overlays, one overlay per element of
  every match of every highlight, on the highlight's page when that page has a text
  layer. The result is the list of overlays drawn, or \<open>None\<close> when a search does not
  return.
\<close>

record 'b highlightDiv =
  page_div :: nat
  bounds_div :: 'b
  active_div :: bool

definition divsFor ::
  "(nat \<rightharpoonup> 'b textData list) \<Rightarrow> (nat \<Rightarrow> bool) \<Rightarrow> int \<Rightarrow> nat \<times> HighlightInstance \<Rightarrow>
     'b highlightDiv list option" where
  "divsFor pageTextMaps hasTextLayer current entry =
     (case entry of (index, highlight) \<Rightarrow>
        (case findTextInTextLayer pageTextMaps (text_hl highlight) (pageNumber highlight) of
           None \<Rightarrow> None
         | Some matches \<Rightarrow>
             Some (concat (map (\<lambda>m.
               concat (map (\<lambda>elementData.
                 if hasTextLayer (pageNumber highlight)
                 then [\<lparr>page_div = pageNumber highlight, bounds_div = bounds_ep elementData,
                        active_div = (int index = current)\<rparr>]
                 else []) (elements m))) matches))))"

fun applyTextHighlights_loop ::
  "(nat \<rightharpoonup> 'b textData list) \<Rightarrow> (nat \<Rightarrow> bool) \<Rightarrow> int \<Rightarrow> (nat \<times> HighlightInstance) list \<Rightarrow>
     'b highlightDiv list option" where
  "applyTextHighlights_loop pageTextMaps hasTextLayer current [] = Some []"
| "applyTextHighlights_loop pageTextMaps hasTextLayer current (entry # rest) =
     (case divsFor pageTextMaps hasTextLayer current entry of
        None \<Rightarrow> None
      | Some divs \<Rightarrow>
          map_option (\<lambda>more. divs @ more)
            (applyTextHighlights_loop pageTextMaps hasTextLayer current rest))"

definition applyTextHighlights ::
  "(nat \<rightharpoonup> 'b textData list) \<Rightarrow> (nat \<Rightarrow> bool) \<Rightarrow> HighlightInstance list \<Rightarrow> int \<Rightarrow>
     'b highlightDiv list option" where
  "applyTextHighlights pageTextMaps hasTextLayer hls current =
     applyTextHighlights_loop pageTextMaps hasTextLayer current (enumerate 0 hls)"

text \<open>
  The positions at which a text occurs in another, written from the statement to be
  checked rather than from the loop: every offset at which the needle starts.
\<close>

definition occurrences :: "jstring \<Rightarrow> jstring \<Rightarrow> nat list" where
  "occurrences hay needle = filter (\<lambda>p. prefix needle (drop p hay)) [0..<Suc (length hay)]"

text \<open>
  Closed forms of what the loop over the text map builds, used in the proofs: the element
  positions from a given offset and item index, and the page text.
\<close>

fun positions_from :: "nat \<Rightarrow> nat \<Rightarrow> 'b textData list \<Rightarrow> 'b elementPosition list" where
  "positions_from off k [] = []"
| "positions_from off k (td # tds) =
     \<lparr>startIndex = off, endIndex = off + length (text_td td), bounds_ep = bounds_td td,
      text_ep = text_td td, index_ep = k\<rparr>
     # positions_from (off + length (text_td td) + 1) (Suc k) tds"

fun joined_text :: "'b textData list \<Rightarrow> jstring" where
  "joined_text [] = []"
| "joined_text (td # tds) = text_td td @ (js '' '') @ joined_text tds"

text \<open>The match record that the search loop pushes for an occurrence at position \<open>p\<close>.\<close>

definition mk_match :: "jstring \<Rightarrow> 'b elementPosition list \<Rightarrow> nat \<Rightarrow> 'b textMatch" where
  "mk_match needle eps p =
     \<lparr>elements = matchingElements eps p (p + length needle), matchStart = p,
      matchEnd = p + length needle, searchText = needle\<rparr>"

text \<open>A page of two text items, used to instantiate the statements below.\<close>

definition sample_page :: "nat \<rightharpoonup> nat textData list" where
  "sample_page = [1 \<mapsto> [\<lparr>text_td = (js ''Hello''), bounds_td = 10\<rparr>,
                          \<lparr>text_td = (js ''world hello''), bounds_td = 20\<rparr>]]"

text \<open>
  A page with one text item: eight capital letters I with a dot above (U+0130) and
  then \<open>ab\<close>.
\<close>

definition dotted_page :: "nat \<rightharpoonup> nat textData list" where
  "dotted_page =
     [1 \<mapsto> [\<lparr>text_td = replicate 8 (Unit (CHR 0x01) (CHR 0x30)) @ (js ''ab''),
               bounds_td = 10\<rparr>]]"

section \<open>Regular expressions of the sources\<close>

text \<open>
  The sources search with regular expressions. Each expression is modelled by a matcher:
  a function that, given the text from a start position on, says whether the expression
  matches there and, if so, what it captures and how many characters the match spans.
  The matchers follow the backtracking order of the expressions; where an expression
  uses classes, lazy and greedy repetition, the matcher computes the one way in which
  the expression can match at that position.
\<close>

definition isLineTerminator :: "code_unit \<Rightarrow> bool" where
  \<comment> \<open>the characters that the dot of a regular expression does not match: line feed,
      carriage return, U+2028 and U+2029\<close>
  "isLineTerminator c \<longleftrightarrow>
     c \<in> set [low (CHR 0x0A), low (CHR 0x0D), Unit (CHR 0x20) (CHR 0x28),
                Unit (CHR 0x20) (CHR 0x29)]"

definition isDigit :: "code_unit \<Rightarrow> bool" where
  "isDigit c \<longleftrightarrow> c \<in> set (js ''0123456789'')"

fun digit_value :: "code_unit \<Rightarrow> nat" where
  \<comment> \<open>the value of a decimal digit\<close>
  "digit_value (Unit hi lo) = of_char lo - 48"

definition parseInt :: "jstring \<Rightarrow> nat" where
  \<comment> \<open>on a non-empty run of decimal digits\<close>
  "parseInt ds = foldl (\<lambda>a c. 10 * a + digit_value c) 0 ds"

definition prefix_ci :: "jstring \<Rightarrow> jstring \<Rightarrow> bool" where
  \<comment> \<open>a literal of lower-case letters and spaces under the flag \<open>i\<close>\<close>
  "prefix_ci lit s \<longleftrightarrow> prefix lit (map lower_ascii (take (length lit) s))"

definition includes_str :: "jstring \<Rightarrow> jstring \<Rightarrow> bool" where
  "includes_str s w \<longleftrightarrow> indexOf s w 0 \<noteq> None"

text \<open>\<open>s.replace(/\s+/g, ' ')\<close>: every run of white space becomes one space.\<close>

function replace_ws :: "jstring \<Rightarrow> jstring" where
  "replace_ws [] = []"
| "replace_ws (c # cs) =
     (if isWhiteSpace c then low (CHR '' '') # replace_ws (dropWhile isWhiteSpace cs)
      else c # replace_ws cs)"
  by pat_completeness auto
termination
  by (relation "measure length") (auto simp: less_Suc_eq_le length_dropWhile_le)

fun join_sp :: "jstring list \<Rightarrow> jstring" where
  \<comment> \<open>\<open>items.join(' ')\<close>\<close>
  "join_sp [] = []"
| "join_sp [t] = t"
| "join_sp (t # ts) = t @ (js '' '') @ join_sp ts"

text \<open>
  All matches of a global expression, from left to right: after a match the search goes
  on behind it, after a failure one character further. Every expression of the sources
  needs at least one character, so a match of \<open>n\<close> characters at \<open>c # cs\<close> leaves
  \<open>drop (n - 1) cs\<close>. The expressions are literals inside the functions that use them:
  each call creates them anew, and every search starts at the beginning of the text.
\<close>

fun exec_all :: "(jstring \<Rightarrow> ('a \<times> nat) option) \<Rightarrow> jstring \<Rightarrow> 'a list" where
  "exec_all m [] = []"
| "exec_all m (c # cs) =
     (case m (c # cs) of
        Some (cap, n) \<Rightarrow> cap # exec_all m (drop (n - 1) cs)
      | None \<Rightarrow> exec_all m cs)"

text \<open>
  The lazy \<open>(.*?)\<close>: the least number of characters, none of them a line terminator,
  after which \<open>stop\<close> holds of the rest; no match when a line terminator or the end of
  the text comes first.
\<close>

fun lazy_dots :: "(jstring \<Rightarrow> bool) \<Rightarrow> jstring \<Rightarrow> nat option" where
  "lazy_dots stop [] = (if stop [] then Some 0 else None)"
| "lazy_dots stop (c # cs) =
     (if stop (c # cs) then Some 0
      else if isLineTerminator c then None
      else map_option Suc (lazy_dots stop cs))"

fun somewhere :: "(jstring \<Rightarrow> bool) \<Rightarrow> jstring \<Rightarrow> bool" where
  \<comment> \<open>\<open>P\<close> holds of the text from some position on\<close>
  "somewhere P [] = P []"
| "somewhere P (c # cs) = (P (c # cs) \<or> somewhere P cs)"

subsection \<open>The highlight patterns of \<open>handleSubmit\<close>\<close>

text \<open>
  A match of a highlight pattern is read through its capture groups 1 and 2; group 2
  exists in the third pattern only.
\<close>

type_synonym groups = "jstring \<times> jstring option"

text \<open>Perfect format: \<^verbatim>\<open>/<<HIGHLIGHT>>(.*?)<<HIGHLIGHT>>/g\<close>.\<close>

definition match_perfect :: "jstring \<Rightarrow> (groups \<times> nat) option" where
  "match_perfect s =
     (if prefix (js ''<<HIGHLIGHT>>'') s then
        (case lazy_dots (prefix (js ''<<HIGHLIGHT>>'')) (drop 13 s) of
           Some k \<Rightarrow> Some ((take k (drop 13 s), None), 13 + k + 13)
         | None \<Rightarrow> None)
      else None)"

text \<open>Missing closing marker: \<^verbatim>\<open>/<<HIGHLIGHT>>(.*?)(?=<<HIGHLIGHT|$)/g\<close>.\<close>

definition match_missing_close :: "jstring \<Rightarrow> (groups \<times> nat) option" where
  "match_missing_close s =
     (if prefix (js ''<<HIGHLIGHT>>'') s then
        (case lazy_dots (\<lambda>r. prefix (js ''<<HIGHLIGHT'') r \<or> r = []) (drop 13 s) of
           Some k \<Rightarrow> Some ((take k (drop 13 s), None), 13 + k)
         | None \<Rightarrow> None)
      else None)"

text \<open>
  Extra content in the opening marker:
  \<^verbatim>\<open>/<<HIGHLIGHT([^>]*?)>>(.*?)<<HIGHLIGHT>>/g\<close>. Group 1 cannot step over a
  \<open>>\<close>, so it is the text up to the first one, which must start the \<open>>>\<close>.
\<close>

definition match_extra_opening :: "jstring \<Rightarrow> (groups \<times> nat) option" where
  "match_extra_opening s =
     (if prefix (js ''<<HIGHLIGHT'') s then
        (let r = drop 11 s;
             g1 = takeWhile (\<lambda>c. c \<noteq> low (CHR ''>'')) r;
             r2 = dropWhile (\<lambda>c. c \<noteq> low (CHR ''>'')) r
         in if prefix (js ''>>'') r2 then
              (case lazy_dots (prefix (js ''<<HIGHLIGHT>>'')) (drop 2 r2) of
                 Some k \<Rightarrow> Some ((g1, Some (take k (drop 2 r2))), 11 + length g1 + 2 + k + 13)
               | None \<Rightarrow> None)
            else None)
      else None)"

text \<open>
  Quoted monetary amounts: a double quote, a text without double quotes that holds a
  dollar sign, and a double quote (\<open>low (CHR 0x22)\<close> is the double quote).
\<close>

definition match_quoted_amount :: "jstring \<Rightarrow> (groups \<times> nat) option" where
  "match_quoted_amount s =
     (case s of
        [] \<Rightarrow> None
      | c # r \<Rightarrow>
          if c = low (CHR 0x22) then
            (let body = takeWhile (\<lambda>c. c \<noteq> low (CHR 0x22)) r;
                 r2 = dropWhile (\<lambda>c. c \<noteq> low (CHR 0x22)) r
             in if r2 \<noteq> [] \<and> low (CHR ''$'') \<in> set body then Some ((body, None), length body + 2)
                else None)
          else None)"

definition highlightPatterns :: "(jstring \<Rightarrow> (groups \<times> nat) option) list" where
  "highlightPatterns =
     [match_perfect, match_missing_close, match_extra_opening, match_quoted_amount]"

definition textToHighlight :: "groups \<Rightarrow> jstring option" where
  \<comment> \<open>\<open>match[1] || match[2]\<close>: an empty group 1 gives way to group 2\<close>
  "textToHighlight m = (case m of (g1, g2) \<Rightarrow> if g1 \<noteq> [] then Some g1 else g2)"

definition pattern_texts :: "(jstring \<Rightarrow> (groups \<times> nat) option) \<Rightarrow> jstring \<Rightarrow> jstring list" where
  \<comment> \<open>the inner loop: what one pattern pushes\<close>
  "pattern_texts pattern assistantContent =
     map trim (filter (\<lambda>t. t \<noteq> [] \<and> length t > 3)
                 (List.map_filter textToHighlight (exec_all pattern assistantContent)))"

definition explicitTexts :: "jstring \<Rightarrow> jstring list" where
  \<comment> \<open>the loop over the patterns: every pattern pushes onto the same list\<close>
  "explicitTexts assistantContent =
     concat (map (\<lambda>pattern. pattern_texts pattern assistantContent) highlightPatterns)"

subsection \<open>The patterns of \<open>extractKeyPhrasesForHighlighting\<close>\<close>

text \<open>Quoted text: a double quote, one or more other characters, a double quote.\<close>

definition match_quoted :: "jstring \<Rightarrow> (jstring \<times> nat) option" where
  "match_quoted s =
     (case s of
        [] \<Rightarrow> None
      | c # r \<Rightarrow>
          if c = low (CHR 0x22) then
            (let body = takeWhile (\<lambda>c. c \<noteq> low (CHR 0x22)) r;
                 r2 = dropWhile (\<lambda>c. c \<noteq> low (CHR 0x22)) r
             in if body \<noteq> [] \<and> r2 \<noteq> [] then Some (body, length body + 2) else None)
          else None)"

definition upto_dot :: "jstring \<Rightarrow> jstring" where
  \<comment> \<open>the greedy \<open>[^.]*\<close>\<close>
  "upto_dot s = takeWhile (\<lambda>c. c \<noteq> low (CHR ''.'')) s"

definition digits_days :: "jstring \<Rightarrow> bool" where
  \<comment> \<open>\<^verbatim>\<open>(\d+)\s*day\<close> at the start of the text\<close>
  "digits_days r \<longleftrightarrow>
     takeWhile isDigit r \<noteq> [] \<and>
     prefix_ci (js ''day'') (dropWhile isWhiteSpace (dropWhile isDigit r))"

text \<open>
  \<^verbatim>\<open>/payment[^.]*?(\d+)\s*days?[^.]*/gi\<close> and the same with \<open>termination\<close>: the
  word, then, before the next full stop, digits followed by \<open>day\<close>; the match runs to
  that full stop or to the end of the text.
\<close>

definition match_word_days :: "jstring \<Rightarrow> jstring \<Rightarrow> (jstring \<times> nat) option" where
  "match_word_days word s =
     (if prefix_ci word s \<and> somewhere digits_days (upto_dot (drop (length word) s))
      then (let n = length word + length (upto_dot (drop (length word) s)) in Some (take n s, n))
      else None)"

text \<open>\<^verbatim>\<open>/net\s*\d+[^.]*/gi\<close>.\<close>

definition match_net :: "jstring \<Rightarrow> (jstring \<times> nat) option" where
  "match_net s =
     (if prefix_ci (js ''net'') s then
        (let r = drop 3 s;
             sp = takeWhile isWhiteSpace r;
             r1 = dropWhile isWhiteSpace r;
             ds = takeWhile isDigit r1;
             r2 = dropWhile isDigit r1
         in if ds \<noteq> [] then
              (let n = 3 + length sp + length ds + length (upto_dot r2) in Some (take n s, n))
            else None)
      else None)"

text \<open>\<^verbatim>\<open>/invoice[^.]*?[^.]*/gi\<close> and the same with \<open>billing\<close>.\<close>

definition match_word_rest :: "jstring \<Rightarrow> jstring \<Rightarrow> (jstring \<times> nat) option" where
  "match_word_rest word s =
     (if prefix_ci word s
      then (let n = length word + length (upto_dot (drop (length word) s)) in Some (take n s, n))
      else None)"

text \<open>
  \<^verbatim>\<open>/notice[^.]*?termination[^.]*/gi\<close> and
  \<^verbatim>\<open>/either party[^.]*?terminate[^.]*/gi\<close>: the first word and, before the next
  full stop, the second.
\<close>

definition match_word_then :: "jstring \<Rightarrow> jstring \<Rightarrow> jstring \<Rightarrow> (jstring \<times> nat) option" where
  "match_word_then word later s =
     (if prefix_ci word s \<and> somewhere (prefix_ci later) (upto_dot (drop (length word) s))
      then (let n = length word + length (upto_dot (drop (length word) s)) in Some (take n s, n))
      else None)"

text \<open>
  Monetary amounts: a dollar sign, one or more digits or commas, and then, when it is
  there, a full stop with two digits.
\<close>

definition match_amount :: "jstring \<Rightarrow> (jstring \<times> nat) option" where
  "match_amount s =
     (case s of
        [] \<Rightarrow> None
      | c # r \<Rightarrow>
          if c = low (CHR ''$'') then
            (let body = takeWhile (\<lambda>c. isDigit c \<or> c = low (CHR '','')) r;
                 r1 = dropWhile (\<lambda>c. isDigit c \<or> c = low (CHR '','')) r;
                 cents = (case r1 of
                            d0 # d1 # d2 # _ \<Rightarrow>
                              if d0 = low (CHR ''.'') \<and> isDigit d1 \<and> isDigit d2 then 3 else 0
                          | _ \<Rightarrow> 0)
             in if body \<noteq> [] then
                  (let n = 1 + length body + cents in Some (take n s, n))
                else None)
          else None)"

definition paymentPatterns :: "(jstring \<Rightarrow> (jstring \<times> nat) option) list" where
  "paymentPatterns =
     [match_word_days (js ''payment''), match_net, match_word_rest (js ''invoice''),
      match_word_rest (js ''billing'')]"

definition terminationPatterns :: "(jstring \<Rightarrow> (jstring \<times> nat) option) list" where
  "terminationPatterns =
     [match_word_days (js ''termination''), match_word_then (js ''notice'') (js ''termination''),
      match_word_then (js ''either party'') (js ''terminate'')]"

definition extractKeyPhrasesForHighlighting :: "jstring \<Rightarrow> jstring \<Rightarrow> jstring list" where
  "extractKeyPhrasesForHighlighting response question =
     (let quoted = filter (\<lambda>m. length m > 10) (exec_all match_quoted response);
          questionLower = toLowerCase question;
          payment =
            (if includes_str questionLower (js ''payment'') \<or> includes_str questionLower (js ''pay'')
             then concat (map (\<lambda>pattern. filter (\<lambda>m. length m > 10) (exec_all pattern response))
                            paymentPatterns)
             else []);
          termination =
            (if includes_str questionLower (js ''termination'')
                \<or> includes_str questionLower (js ''terminate'')
             then concat (map (\<lambda>pattern. filter (\<lambda>m. length m > 10) (exec_all pattern response))
                            terminationPatterns)
             else []);
          amounts =
            (if includes_str questionLower (js ''value'') \<or> includes_str questionLower (js ''amount'')
                \<or> includes_str questionLower (js ''cost'')
             then exec_all match_amount response
             else [])
      in quoted @ payment @ termination @ amounts)"

section \<open>Match resolution: \<open>findExactTextHighlights\<close>\<close>

text \<open>
  The page delimiter \<^verbatim>\<open>/--- PAGE (\d+) ---/\<close>; the capture is the whole match and
  its digits.
\<close>

definition match_page_marker :: "jstring \<Rightarrow> ((jstring \<times> jstring) \<times> nat) option" where
  "match_page_marker s =
     (if prefix (js ''--- PAGE '') s then
        (let ds = takeWhile isDigit (drop 9 s);
             r = dropWhile isDigit (drop 9 s)
         in if ds \<noteq> [] \<and> prefix (js '' ---'') r
            then Some ((take (9 + length ds + 4) s, ds), 9 + length ds + 4)
            else None)
      else None)"

definition pageNumberBefore :: "jstring \<Rightarrow> nat" where
  \<comment> \<open>the number in the last page delimiter of the text before the match, else 1\<close>
  "pageNumberBefore textBeforeMatch =
     (let pageMatches = map fst (exec_all match_page_marker textBeforeMatch)
      in if pageMatches \<noteq> [] \<and> length pageMatches > 0 then
           (case match_page_marker (last pageMatches) of
              Some ((whole, ds), n) \<Rightarrow> parseInt ds
            | None \<Rightarrow> 1)
         else 1)"

text \<open>
  The body of the \<open>forEach\<close>: what one text pushes. The inner loop leaves at its first
  round, either with no match or, after the push, by the \<open>break\<close>. The offset
  \<open>foundIndex\<close> is one of the cleaned contract text; the text before the match is cut from
  the contract text as it came.
\<close>

definition highlightsFor :: "jstring \<Rightarrow> nat \<times> jstring \<Rightarrow> HighlightInstance list" where
  "highlightsFor contractTxt entry =
     (case entry of (index, exactText) \<Rightarrow>
        if length exactText < 5 then []
        else
          (let cleanExactText = replace_ws (trim exactText);
               cleanContractText = replace_ws contractTxt
           in case indexOf (toLowerCase cleanContractText) (toLowerCase cleanExactText) 0 of
                None \<Rightarrow> []
              | Some foundIndex \<Rightarrow>
                  [\<lparr>id_hl = (js ''exact-highlight-'') @ toString index @ (js ''-'') @ toString foundIndex,
                    pageNumber = pageNumberBefore (take foundIndex contractTxt),
                    text_hl = cleanExactText,
                    bounds_hl = \<lparr>x_px = 50, y_px = 100,
                                  width_px = int (length cleanExactText) * 6,
                                  height_px = 16\<rparr>\<rparr>]))"

definition findExactTextHighlights :: "jstring \<Rightarrow> jstring list \<Rightarrow> HighlightInstance list" where
  "findExactTextHighlights contractTxt exactTexts =
     concat (map (highlightsFor contractTxt) (enumerate 0 exactTexts))"

definition id_index :: "jstring \<Rightarrow> nat" where
  \<comment> \<open>the index read back from the id of a highlight, used in the proofs\<close>
  "id_index ident = parseInt (takeWhile isDigit (drop 16 ident))"

section \<open>Text extraction: \<open>extractTextFromPDF\<close>\<close>

text \<open>
  The document as the PDF library hands it over: for each page, its text items. The
  result is the contract text with a delimiter line before each page that has text.
\<close>

record textItem =
  str :: jstring
  hasEOL :: bool

definition pageTextOf :: "textItem list \<Rightarrow> jstring" where
  "pageTextOf items =
     trim (replace_ws (join_sp
       (map (\<lambda>item. if hasEOL item then str item @ [low (CHR 0x0A)] else str item) items)))"

primrec extract_pages :: "textItem list list \<Rightarrow> nat \<Rightarrow> jstring \<Rightarrow> jstring" where
  "extract_pages [] pageNum fullText = fullText"
| "extract_pages (items # rest) pageNum fullText =
     extract_pages rest (pageNum + 1)
       (if length (pageTextOf items) > 0
        then fullText @ [low (CHR 0x0A), low (CHR 0x0A)] @ (js ''--- PAGE '') @ toString pageNum @ (js '' ---'')
               @ [low (CHR 0x0A)] @ pageTextOf items
        else fullText)"

datatype extraction_error = NoExtractableText

definition extractTextFromPDF :: "textItem list list \<Rightarrow> extraction_error + jstring" where
  "extractTextFromPDF pages =
     (let fullText = extract_pages pages 1 []
      in if length (trim fullText) = 0 then Inl NoExtractableText else Inr (trim fullText))"

section \<open>The chat component: \<open>handleSubmit\<close>\<close>

fun replace_all :: "(jstring \<Rightarrow> nat option) \<Rightarrow> jstring \<Rightarrow> jstring \<Rightarrow> jstring" where
  \<comment> \<open>\<open>s.replace(pattern, rep)\<close> for a global pattern\<close>
  "replace_all m rep [] = []"
| "replace_all m rep (c # cs) =
     (case m (c # cs) of
        Some n \<Rightarrow> rep @ replace_all m rep (drop (n - 1) cs)
      | None \<Rightarrow> c # replace_all m rep cs)"

definition match_literal :: "jstring \<Rightarrow> jstring \<Rightarrow> nat option" where
  "match_literal lit s = (if prefix lit s then Some (length lit) else None)"

definition match_any_opening :: "jstring \<Rightarrow> nat option" where
  \<comment> \<open>\<^verbatim>\<open>/<<HIGHLIGHT[^>]*?>>/g\<close>\<close>
  "match_any_opening s =
     (if prefix (js ''<<HIGHLIGHT'') s then
        (let g = takeWhile (\<lambda>c. c \<noteq> low (CHR ''>'')) (drop 11 s);
             r = dropWhile (\<lambda>c. c \<noteq> low (CHR ''>'')) (drop 11 s)
         in if prefix (js ''>>'') r then Some (11 + length g + 2) else None)
      else None)"

definition cleanContentOf :: "jstring \<Rightarrow> jstring" where
  "cleanContentOf assistantContent =
     replace_all (match_literal (js ''<<HIGHLIGHT'')) [low (CHR 0x22)]
       (replace_all match_any_opening [low (CHR 0x22)]
          (replace_all (match_literal (js ''<<HIGHLIGHT>>'')) [low (CHR 0x22)] assistantContent))"

datatype role = User | Assistant

record Message =
  id_msg :: jstring
  role_msg :: role
  content :: jstring

record ChatState =
  contractText :: jstring
  messages :: "Message list"
  input :: jstring
  isLoading :: bool

text \<open>
  What the request to the chat route brought: a failure with its message (a response
  that is not ok, or no stream), or the content accumulated from the stream.
\<close>

datatype chat_reply = ReplyFailed jstring | ReplyStream jstring

definition textsToHighlight :: "jstring \<Rightarrow> jstring \<Rightarrow> jstring list" where
  \<comment> \<open>the explicit highlights and, only when there is none, the key phrases\<close>
  "textsToHighlight assistantContent currentQuestion =
     (let exactTextsToHighlight = explicitTexts assistantContent
      in if length exactTextsToHighlight = 0
         then exactTextsToHighlight
                @ extractKeyPhrasesForHighlighting assistantContent currentQuestion
         else exactTextsToHighlight)"

text \<open>
  \<open>handleSubmit\<close>, with the two readings of the clock that make the message ids. The
  second component of the result is the argument of the call of \<open>onHighlight\<close>, or
  \<open>None\<close> when the handler does not call it.
\<close>

definition handleSubmit ::
  "nat \<Rightarrow> nat \<Rightarrow> chat_reply \<Rightarrow> ChatState \<Rightarrow> ChatState \<times> HighlightInstance list option" where
  "handleSubmit nowUser nowReply reply s =
     (if trim (input s) = [] \<or> contractText s = [] \<or> isLoading s then (s, None)
      else
        (let userMessage = \<lparr>id_msg = toString nowUser, role_msg = User, content = input s\<rparr>;
             currentQuestion = input s;
             s1 = s\<lparr>messages := messages s @ [userMessage], input := [], isLoading := True\<rparr>
         in case reply of
              ReplyFailed msg \<Rightarrow>
                (s1\<lparr>messages := messages s1 @
                      [\<lparr>id_msg = toString (nowReply + 1), role_msg = Assistant,
                        content = (js ''Sorry, I encountered an error: '') @ msg
                                    @ (js ''. Please try again.'')\<rparr>],
                    isLoading := False\<rparr>, None)
            | ReplyStream assistantContent \<Rightarrow>
                (let exactTextsToHighlight = textsToHighlight assistantContent currentQuestion;
                     s2 = s1\<lparr>messages := messages s1 @
                            [\<lparr>id_msg = toString (nowReply + 1), role_msg = Assistant,
                              content = cleanContentOf assistantContent\<rparr>],
                          isLoading := False\<rparr>
                 in (s2, Some (if length exactTextsToHighlight > 0 \<and> contractText s \<noteq> []
                               then findExactTextHighlights (contractText s) exactTextsToHighlight
                               else [])))))"

text \<open>
  The chat component inside the viewer: \<open>onHighlight\<close> is the viewer's
  \<open>addHighlights\<close>.
\<close>

definition submit ::
  "nat \<Rightarrow> nat \<Rightarrow> chat_reply \<Rightarrow> ChatState \<times> ViewerState \<Rightarrow> ChatState \<times> ViewerState" where
  "submit nowUser nowReply reply app =
     (case handleSubmit nowUser nowReply reply (fst app) of
        (s', None) \<Rightarrow> (s', snd app)
      | (s', Some hs) \<Rightarrow> (s', addHighlights hs (snd app)))"

section \<open>Sample documents and answers\<close>

text \<open>
  Concrete inputs at which the statements below are evaluated: a one-page agreement
  with an answer that cites it between markers, an answer with text after the citation,
  a three-page document, and a two-page document with an answer that quotes it without
  markers. Each contract text is what \<open>extractTextFromPDF\<close> returns for the document.
\<close>

definition termination_doc :: "textItem list list" where
  "termination_doc =
     [[\<lparr>str = (js ''This Agreement shall terminate upon 30 days written notice.''),
        hasEOL = False\<rparr>]]"

definition termination_text :: jstring where
  "termination_text =
     (js ''--- PAGE 1 ---\<newline>This Agreement shall terminate upon 30 days written notice.'')"

definition termination_answer :: jstring where
  "termination_answer = (js ''<<HIGHLIGHT>>terminate upon 30 days written notice<<HIGHLIGHT>>'')"

definition termination_chat :: ChatState where
  "termination_chat =
     \<lparr>contractText = termination_text, messages = [],
      input = (js ''When does the agreement end?''), isLoading = False\<rparr>"

definition payment_answer :: jstring where
  "payment_answer =
     (js ''The contract says <<HIGHLIGHT>>Payment is due in 30 days<<HIGHLIGHT>> and nothing else.'')"

definition three_page_doc :: "textItem list list" where
  "three_page_doc =
     [[\<lparr>str = (js ''alpha beta''), hasEOL = False\<rparr>],
      [\<lparr>str = (js ''gamma delta''), hasEOL = False\<rparr>],
      [\<lparr>str = (js ''hello world''), hasEOL = False\<rparr>]]"

definition three_page_text :: jstring where
  "three_page_text =
     (js ''--- PAGE 1 ---\<newline>alpha beta\<newline>\<newline>--- PAGE 2 ---\<newline>gamma delta\<newline>\<newline>--- PAGE 3 ---\<newline>hello world'')"

definition quoting_doc :: "textItem list list" where
  "quoting_doc =
     [[\<lparr>str = (js ''alpha beta gamma''), hasEOL = False\<rparr>],
      [\<lparr>str = (js ''delta epsilon zeta''), hasEOL = False\<rparr>]]"

definition quoting_text :: jstring where
  "quoting_text =
     (js ''--- PAGE 1 ---\<newline>alpha beta gamma\<newline>\<newline>--- PAGE 2 ---\<newline>delta epsilon zeta'')"

definition quoting_answer :: jstring where
  "quoting_answer =
     (js ''It says '') @ [low (CHR 0x22)] @ (js ''alpha beta gamma'') @ [low (CHR 0x22)] @ (js '' and '')
       @ [low (CHR 0x22)] @ (js ''delta epsilon zeta'') @ [low (CHR 0x22)] @ (js '' later.'')"

definition quoting_chat :: ChatState where
  "quoting_chat =
     \<lparr>contractText = quoting_text, messages = [], input = (js ''What does it say?''),
      isLoading = False\<rparr>"

definition quoting_highlights :: "HighlightInstance list" where
  "quoting_highlights =
     [\<lparr>id_hl = (js ''exact-highlight-0-15''), pageNumber = 1, text_hl = (js ''alpha beta gamma''),
        bounds_hl = \<lparr>x_px = 50, y_px = 100, width_px = 96, height_px = 16\<rparr>\<rparr>,
      \<lparr>id_hl = (js ''exact-highlight-1-47''), pageNumber = 2, text_hl = (js ''delta epsilon zeta''),
        bounds_hl = \<lparr>x_px = 50, y_px = 100, width_px = 108, height_px = 16\<rparr>\<rparr>]"

text \<open>
  The question is asked, the user steps to the second highlight, and the same question
  is asked again with the same answer streamed back.
\<close>

definition reask_navigated :: "ChatState \<times> ViewerState" where
  "reask_navigated =
     (fst (submit 1 2 (ReplyStream quoting_answer) (quoting_chat, initialViewerState)),
      handleHighlightNavigation Next
        (snd (submit 1 2 (ReplyStream quoting_answer) (quoting_chat, initialViewerState))))"

definition reask_again :: "ChatState \<times> ViewerState" where
  "reask_again =
     submit 3 4 (ReplyStream quoting_answer)
       ((fst reask_navigated)\<lparr>input := input quoting_chat\<rparr>, snd reask_navigated)"

section \<open>The chat endpoint\<close>





section \<open>Texts written as literals\<close>

lemma length_js [simp]: "length (js s) = length s"
  by (simp add: js_def)

lemma js_eq_Nil [simp]: "js s = [] \<longleftrightarrow> s = []"
  by (simp add: js_def)

lemma js_Nil: "js [] = []"
  by (simp add: js_def)

lemma js_Cons: "js (c # cs) = low c # js cs"
  by (simp add: js_def)

section \<open>Properties of the highlight list\<close>

lemma js_rem_nonneg: "0 \<le> a \<Longrightarrow> 0 < b \<Longrightarrow> js_rem a b = a mod b"
  by (cases "a = 0") (simp_all add: js_rem_def)

lemma nav_next_index:
  assumes "highlights s \<noteq> []" "0 \<le> currentHighlight s"
  shows "currentHighlight (handleHighlightNavigation Next s) =
           (currentHighlight s + 1) mod int (length (highlights s))"
proof -
  have "js_rem (currentHighlight s + 1) (int (length (highlights s))) =
          (currentHighlight s + 1) mod int (length (highlights s))"
    using assms by (intro js_rem_nonneg) simp_all
  with assms show ?thesis by (simp add: handleHighlightNavigation_def)
qed

lemma nav_prev_index:
  assumes "highlights s \<noteq> []" "0 \<le> currentHighlight s"
  shows "currentHighlight (handleHighlightNavigation Prev s) =
           (currentHighlight s - 1 + int (length (highlights s))) mod int (length (highlights s))"
proof -
  from assms have "1 \<le> int (length (highlights s))"
    by (cases "highlights s") simp_all
  with assms have "0 \<le> currentHighlight s - 1 + int (length (highlights s))" by linarith
  then have "js_rem (currentHighlight s - 1 + int (length (highlights s))) (int (length (highlights s))) =
          (currentHighlight s - 1 + int (length (highlights s))) mod int (length (highlights s))"
    using assms by (intro js_rem_nonneg) simp_all
  with assms show ?thesis by (simp only: handleHighlightNavigation_def) simp
qed

lemma nav_highlights [simp]: "highlights (handleHighlightNavigation d s) = highlights s"
  by (cases d) (simp_all add: handleHighlightNavigation_def)

lemma state_ok_init: "state_ok initialViewerState"
  by (simp add: state_ok_def initialViewerState_def)

lemma state_ok_add: "state_ok (addHighlights hs s)"
  by (simp add: state_ok_def addHighlights_def)

lemma state_ok_upload: "state_ok (handleFileUpload s)"
  by (simp add: state_ok_def handleFileUpload_def)

lemma state_ok_nav:
  assumes "state_ok s"
  shows "state_ok (handleHighlightNavigation d s)"
proof (cases "highlights s = []")
  case True
  with assms show ?thesis by (simp add: handleHighlightNavigation_def)
next
  case False
  with assms have rng: "0 \<le> currentHighlight s"
    by (simp add: state_ok_def)
  from False have pos: "0 < int (length (highlights s))" by simp
  define t where "t = handleHighlightNavigation d s"
  have hs: "highlights t = highlights s" by (simp add: t_def)
  have "0 \<le> currentHighlight t \<and> currentHighlight t < int (length (highlights s))"
  proof (cases d)
    case Next
    have "currentHighlight t = (currentHighlight s + 1) mod int (length (highlights s))"
      unfolding t_def Next using False rng by (rule nav_next_index)
    with pos show ?thesis by simp
  next
    case Prev
    have "currentHighlight t =
        (currentHighlight s - 1 + int (length (highlights s))) mod int (length (highlights s))"
      unfolding t_def Prev using False rng by (rule nav_prev_index)
    with pos show ?thesis by simp
  qed
  with False hs have "state_ok t" by (simp add: state_ok_def)
  then show ?thesis by (simp only: t_def)
qed

text \<open>
  C5. In every state reachable from the initial one by setting the highlight list,
  navigating forwards or backwards, or uploading a file, \<open>currentHighlight\<close> is \<open>-1\<close>
  exactly when the list is empty, and is a valid index of the list when it is not.
\<close>

theorem reachable_index_invariant:
  assumes "reachable s"
  shows "(currentHighlight s = -1 \<longleftrightarrow> highlights s = []) \<and>
         (highlights s \<noteq> [] \<longrightarrow>
            0 \<le> currentHighlight s \<and> currentHighlight s < int (length (highlights s)))"
proof -
  from assms have "state_ok s"
    by (induction rule: reachable.induct)
       (simp_all add: state_ok_init state_ok_add state_ok_nav state_ok_upload)
  then show ?thesis by (simp add: state_ok_def)
qed

theorem reachable_index_invariant_witness:
  "reachable (handleHighlightNavigation Next (addHighlights two_highlights initialViewerState)) \<and>
   currentHighlight
     (handleHighlightNavigation Next (addHighlights two_highlights initialViewerState)) = 1"
proof -
  let ?s = "handleHighlightNavigation Next (addHighlights two_highlights initialViewerState)"
  have r: "reachable ?s" by (intro reachable.intros)
  have "currentHighlight ?s = 1"
    using reachable_index_invariant [OF r]
    by (simp add: handleHighlightNavigation_def addHighlights_def js_rem_def two_highlights_def)
  with r show ?thesis by simp
qed

section \<open>Circular navigation\<close>

lemma nav_next_state:
  assumes "highlights s \<noteq> []" "0 \<le> currentHighlight s"
  shows "handleHighlightNavigation Next s =
           s\<lparr>currentHighlight := (currentHighlight s + 1) mod int (length (highlights s))\<rparr>"
proof -
  have "js_rem (currentHighlight s + 1) (int (length (highlights s))) =
          (currentHighlight s + 1) mod int (length (highlights s))"
    using assms by (intro js_rem_nonneg) simp_all
  with assms show ?thesis by (simp add: handleHighlightNavigation_def)
qed

lemma nav_next_funpow:
  assumes "highlights s \<noteq> []" "0 \<le> currentHighlight s"
  shows "(handleHighlightNavigation Next ^^ k) s =
           s\<lparr>currentHighlight :=
               (if k = 0 then currentHighlight s
                else (currentHighlight s + int k) mod int (length (highlights s)))\<rparr>"
proof (induction k)
  case 0
  show ?case by simp
next
  case (Suc k)
  let ?n = "int (length (highlights s))"
  define t where "t = (handleHighlightNavigation Next ^^ k) s"
  have t: "t = s\<lparr>currentHighlight :=
               (if k = 0 then currentHighlight s else (currentHighlight s + int k) mod ?n)\<rparr>"
    unfolding t_def by (rule Suc.IH)
  from assms have pos: "0 < ?n" by simp
  have t_hs: "highlights t = highlights s" by (simp add: t)
  have t_nonneg: "0 \<le> currentHighlight t" using assms pos by (simp add: t)
  have "handleHighlightNavigation Next t =
          t\<lparr>currentHighlight := (currentHighlight t + 1) mod int (length (highlights t))\<rparr>"
    using assms t_hs t_nonneg by (intro nav_next_state) simp_all
  also have "(currentHighlight t + 1) mod int (length (highlights t)) =
          (currentHighlight s + int (Suc k)) mod ?n"
    by (simp add: t mod_simps ac_simps)
  finally have "handleHighlightNavigation Next t =
      s\<lparr>currentHighlight := (currentHighlight s + int (Suc k)) mod ?n\<rparr>"
    by (simp add: t)
  then show ?case by (simp add: t_def)
qed

text \<open>
  C6. On a non-empty highlight list of length \<open>n\<close> with a valid index, \<open>n\<close> steps
  forwards bring the state (and so \<open>currentHighlight\<close>) back to where it started, and a
  step backwards right after a step forwards restores the state, hence the index and the
  id of the active highlight. On an empty list both directions leave the state unchanged.
\<close>

theorem navigation_cycle:
  "(highlights s = [] \<longrightarrow>
      handleHighlightNavigation Next s = s \<and> handleHighlightNavigation Prev s = s) \<and>
   (highlights s \<noteq> [] \<and> 0 \<le> currentHighlight s \<and>
      currentHighlight s < int (length (highlights s)) \<longrightarrow>
      (handleHighlightNavigation Next ^^ length (highlights s)) s = s \<and>
      handleHighlightNavigation Prev (handleHighlightNavigation Next s) = s \<and>
      id_hl (highlights (handleHighlightNavigation Prev (handleHighlightNavigation Next s)) !
               nat (currentHighlight (handleHighlightNavigation Prev (handleHighlightNavigation Next s))))
        = id_hl (highlights s ! nat (currentHighlight s)))"
proof (intro conjI impI)
  assume "highlights s = []"
  then show "handleHighlightNavigation Next s = s" "handleHighlightNavigation Prev s = s"
    by (simp_all add: handleHighlightNavigation_def)
next
  assume a: "highlights s \<noteq> [] \<and> 0 \<le> currentHighlight s \<and>
      currentHighlight s < int (length (highlights s))"
  let ?n = "int (length (highlights s))"
  from a have ne: "highlights s \<noteq> []" and lo: "0 \<le> currentHighlight s"
    and hi: "currentHighlight s < ?n" by simp_all
  from ne have k: "length (highlights s) \<noteq> 0" by simp
  have "(currentHighlight s + ?n) mod ?n = currentHighlight s"
    using lo hi by simp
  with k show cyc: "(handleHighlightNavigation Next ^^ length (highlights s)) s = s"
    by (simp add: nav_next_funpow [OF ne lo])
  define t where "t = handleHighlightNavigation Next s"
  have t: "t = s\<lparr>currentHighlight := (currentHighlight s + 1) mod ?n\<rparr>"
    unfolding t_def using ne lo by (rule nav_next_state)
  have t_hs: "highlights t = highlights s" by (simp add: t)
  have t_lo: "0 \<le> currentHighlight t" using ne by (simp add: t)
  have "currentHighlight (handleHighlightNavigation Prev t) =
          (currentHighlight t - 1 + int (length (highlights t))) mod int (length (highlights t))"
    using ne t_hs t_lo by (intro nav_prev_index) simp_all
  also have "\<dots> = ((currentHighlight s + 1) mod ?n - 1 + ?n) mod ?n"
    by (simp add: t)
  also have "\<dots> = (currentHighlight s + 1 - 1 + ?n) mod ?n"
    by (simp add: mod_simps)
  also have "\<dots> = currentHighlight s"
    using lo hi by simp
  finally have c: "currentHighlight (handleHighlightNavigation Prev t) = currentHighlight s" .
  have "handleHighlightNavigation Prev t = t\<lparr>currentHighlight := currentHighlight s\<rparr>"
    using c t_hs ne by (simp add: handleHighlightNavigation_def split: direction.splits)
  then show restore: "handleHighlightNavigation Prev (handleHighlightNavigation Next s) = s"
    by (simp add: t_def [symmetric]) (simp add: t)
  show "id_hl (highlights (handleHighlightNavigation Prev (handleHighlightNavigation Next s)) !
               nat (currentHighlight (handleHighlightNavigation Prev (handleHighlightNavigation Next s))))
        = id_hl (highlights s ! nat (currentHighlight s))"
    by (simp only: restore)
qed

theorem navigation_cycle_witness:
  "(handleHighlightNavigation Next ^^ length two_highlights)
      \<lparr>highlights = two_highlights, currentHighlight = 1\<rparr>
    = \<lparr>highlights = two_highlights, currentHighlight = 1\<rparr> \<and>
   handleHighlightNavigation Prev (handleHighlightNavigation Next
      \<lparr>highlights = two_highlights, currentHighlight = 1\<rparr>)
    = \<lparr>highlights = two_highlights, currentHighlight = 1\<rparr> \<and>
   handleHighlightNavigation Next \<lparr>highlights = [], currentHighlight = -1\<rparr>
    = \<lparr>highlights = [], currentHighlight = -1\<rparr>"
proof -
  have ne: "two_highlights \<noteq> []" and len: "(1::int) < int (length two_highlights)"
    by (simp_all add: two_highlights_def)
  from navigation_cycle [of "\<lparr>highlights = two_highlights, currentHighlight = 1\<rparr>"] ne len
  have "(handleHighlightNavigation Next ^^ length two_highlights)
      \<lparr>highlights = two_highlights, currentHighlight = 1\<rparr>
    = \<lparr>highlights = two_highlights, currentHighlight = 1\<rparr>"
    and "handleHighlightNavigation Prev (handleHighlightNavigation Next
      \<lparr>highlights = two_highlights, currentHighlight = 1\<rparr>)
    = \<lparr>highlights = two_highlights, currentHighlight = 1\<rparr>"
    by simp_all
  moreover from navigation_cycle [of "\<lparr>highlights = [], currentHighlight = -1\<rparr>"]
  have "handleHighlightNavigation Next \<lparr>highlights = [], currentHighlight = -1\<rparr>
    = \<lparr>highlights = [], currentHighlight = -1\<rparr>"
    by simp
  ultimately show ?thesis by simp
qed

section \<open>Upstream failures of the chat endpoint\<close>



section \<open>Element positions of a page\<close>

lemma loop_closed_form:
  "elementPositions_loop (enumerate k tds) (full, eps) =
     (full @ joined_text tds, eps @ positions_from (length full) k tds)"
  by (induction tds arbitrary: k full eps) simp_all

lemma loop_from_empty:
  "elementPositions_loop (enumerate 0 tds) ([], []) = (joined_text tds, positions_from 0 0 tds)"
  by (simp add: loop_closed_form)

lemma length_positions_from [simp]: "length (positions_from off k tds) = length tds"
  by (induction tds arbitrary: off k) simp_all

lemma positions_from_lower:
  "e \<in> set (positions_from off k tds) \<Longrightarrow> off \<le> startIndex e \<and> startIndex e \<le> endIndex e"
proof (induction tds arbitrary: off k)
  case Nil
  then show ?case by simp
next
  case (Cons td tds)
  from Cons.prems consider
    "e = \<lparr>startIndex = off, endIndex = off + length (text_td td), bounds_ep = bounds_td td,
      text_ep = text_td td, index_ep = k\<rparr>"
    | "e \<in> set (positions_from (off + length (text_td td) + 1) (Suc k) tds)"
    by auto
  then show ?case
  proof cases
    case 1
    then show ?thesis by simp
  next
    case 2
    from Cons.IH [OF 2] show ?thesis by simp
  qed
qed

lemma positions_from_nth:
  "j < length tds \<Longrightarrow>
     text_ep (positions_from off k tds ! j) = text_td (tds ! j) \<and>
     bounds_ep (positions_from off k tds ! j) = bounds_td (tds ! j) \<and>
     index_ep (positions_from off k tds ! j) = k + j \<and>
     endIndex (positions_from off k tds ! j) =
       startIndex (positions_from off k tds ! j) + length (text_td (tds ! j))"
proof (induction tds arbitrary: off k j)
  case Nil
  then show ?case by simp
next
  case (Cons td tds)
  show ?case
  proof (cases j)
    case 0
    then show ?thesis by simp
  next
    case (Suc i)
    with Cons.prems have i: "i < length tds" by simp
    from Cons.IH [OF i, of "off + length (text_td td) + 1" "Suc k"] Suc show ?thesis by simp
  qed
qed

lemma positions_from_occupy:
  "j < length tds \<Longrightarrow> length pre = off \<Longrightarrow>
     take (length (text_td (tds ! j)))
          (drop (startIndex (positions_from off k tds ! j)) (pre @ joined_text tds))
       = text_td (tds ! j)"
proof (induction tds arbitrary: off k j pre)
  case Nil
  then show ?case by simp
next
  case (Cons td tds)
  show ?case
  proof (cases j)
    case 0
    with Cons.prems show ?thesis by simp
  next
    case (Suc i)
    with Cons.prems have i: "i < length tds" by simp
    have l: "length (pre @ text_td td @ (js '' '')) = off + length (text_td td) + 1"
      using Cons.prems by simp
    from Cons.IH [OF i l, of "Suc k"] Suc show ?thesis by simp
  qed
qed

lemma matching_exact:
  "j < length tds \<Longrightarrow>
     matchingElements (positions_from off k tds)
        (startIndex (positions_from off k tds ! j)) (endIndex (positions_from off k tds ! j))
       = [positions_from off k tds ! j]"
proof (induction tds arbitrary: off k j)
  case Nil
  then show ?case by simp
next
  case (Cons td tds)
  let ?off = "off + length (text_td td) + 1"
  have tail: "\<And>e. e \<in> set (positions_from ?off (Suc k) tds) \<Longrightarrow> ?off \<le> startIndex e \<and> startIndex e \<le> endIndex e"
    by (rule positions_from_lower)
  show ?case
  proof (cases j)
    case 0
    have "filter (\<lambda>pos. startIndex pos \<le> off + length (text_td td) \<and> off \<le> endIndex pos)
            (positions_from ?off (Suc k) tds) = []"
      using tail by (fastforce simp: filter_empty_conv)
    with 0 show ?thesis by (simp add: matchingElements_def)
  next
    case (Suc i)
    with Cons.prems have i: "i < length tds" by simp
    let ?e = "positions_from ?off (Suc k) tds ! i"
    have "?e \<in> set (positions_from ?off (Suc k) tds)" using i by simp
    from tail [OF this] have "?off \<le> startIndex ?e" "startIndex ?e \<le> endIndex ?e" by simp_all
    with Cons.IH [OF i, of ?off "Suc k"] Suc show ?thesis
      by (simp add: matchingElements_def)
  qed
qed

lemma positions_cover:
  "off \<le> p \<Longrightarrow> p < off + length (joined_text tds) \<Longrightarrow>
     \<exists>e \<in> set (positions_from off k tds). startIndex e \<le> p \<and> p \<le> endIndex e"
proof (induction tds arbitrary: off k)
  case Nil
  then show ?case by simp
next
  case (Cons td tds)
  show ?case
  proof (cases "p \<le> off + length (text_td td)")
    case True
    with Cons.prems show ?thesis by simp
  next
    case False
    with Cons.prems have "off + length (text_td td) + 1 \<le> p"
      "p < off + length (text_td td) + 1 + length (joined_text tds)" by simp_all
    from Cons.IH [OF this, of "Suc k"] show ?thesis by auto
  qed
qed

lemma matching_covered:
  assumes "p < length (joined_text tds)"
  shows "matchingElements (positions_from 0 0 tds) p (p + n) \<noteq> []"
proof -
  from positions_cover [of 0 p tds 0] assms
  obtain e where e: "e \<in> set (positions_from 0 0 tds)" "startIndex e \<le> p" "p \<le> endIndex e"
    by auto
  then have "e \<in> set (matchingElements (positions_from 0 0 tds) p (p + n))"
    by (simp add: matchingElements_def)
  then show ?thesis by auto
qed

text \<open>
  C4. For every text map and every item \<open>j\<close> of it, the position entry built for the
  item carries its index and text, spans exactly the text's characters in the page text,
  and the intersection test of \<open>findTextInTextLayer\<close>, run with the entry's own start
  and end offsets, selects that entry and no other.
\<close>

theorem lookup_exact_fragment:
  assumes "j < length textMap"
  shows "length (snd (elementPositions_loop (enumerate 0 textMap) ([], []))) = length textMap \<and>
         index_ep (snd (elementPositions_loop (enumerate 0 textMap) ([], [])) ! j) = j \<and>
         text_ep (snd (elementPositions_loop (enumerate 0 textMap) ([], [])) ! j) = text_td (textMap ! j) \<and>
         endIndex (snd (elementPositions_loop (enumerate 0 textMap) ([], [])) ! j) =
           startIndex (snd (elementPositions_loop (enumerate 0 textMap) ([], [])) ! j)
             + length (text_td (textMap ! j)) \<and>
         take (length (text_td (textMap ! j)))
              (drop (startIndex (snd (elementPositions_loop (enumerate 0 textMap) ([], [])) ! j))
                    (fst (elementPositions_loop (enumerate 0 textMap) ([], []))))
           = text_td (textMap ! j) \<and>
         matchingElements (snd (elementPositions_loop (enumerate 0 textMap) ([], [])))
            (startIndex (snd (elementPositions_loop (enumerate 0 textMap) ([], [])) ! j))
            (endIndex (snd (elementPositions_loop (enumerate 0 textMap) ([], [])) ! j))
           = [snd (elementPositions_loop (enumerate 0 textMap) ([], [])) ! j]"
proof -
  have occ: "take (length (text_td (textMap ! j)))
          (drop (startIndex (positions_from 0 0 textMap ! j)) (joined_text textMap))
       = text_td (textMap ! j)"
    using positions_from_occupy [OF assms, of "[]" 0 0] by simp
  from positions_from_nth [OF assms, of 0 0] matching_exact [OF assms, of 0 0] occ
  show ?thesis by (simp add: loop_from_empty)
qed

theorem lookup_exact_fragment_witness:
  "(1::nat) < length [\<lparr>text_td = (js ''Hello''), bounds_td = 10::nat\<rparr>,
                     \<lparr>text_td = (js ''world hello''), bounds_td = 20\<rparr>] \<and>
   matchingElements (snd (elementPositions_loop (enumerate 0
        [\<lparr>text_td = (js ''Hello''), bounds_td = 10::nat\<rparr>,
         \<lparr>text_td = (js ''world hello''), bounds_td = 20\<rparr>]) ([], []))) 6 17
     = [\<lparr>startIndex = 6, endIndex = 17, bounds_ep = 20, text_ep = (js ''world hello''), index_ep = 1\<rparr>]"
proof -
  have h: "(1::nat) < length [\<lparr>text_td = (js ''Hello''), bounds_td = 10::nat\<rparr>,
                     \<lparr>text_td = (js ''world hello''), bounds_td = 20\<rparr>]" by simp
  have v: "snd (elementPositions_loop (enumerate 0
        [\<lparr>text_td = (js ''Hello''), bounds_td = 10::nat\<rparr>,
         \<lparr>text_td = (js ''world hello''), bounds_td = 20\<rparr>]) ([], [])) ! 1
     = \<lparr>startIndex = 6, endIndex = 17, bounds_ep = 20, text_ep = (js ''world hello''), index_ep = 1\<rparr>"
    by simp
  from lookup_exact_fragment [OF h] show ?thesis unfolding v by simp
qed

section \<open>The search loop of the text layer\<close>

lemma find_from_None:
  "find_from needle xs p = None \<Longrightarrow> k \<le> length xs \<Longrightarrow> \<not> prefix needle (drop k xs)"
proof (induction xs arbitrary: p k)
  case Nil
  then show ?case by (auto split: if_splits)
next
  case (Cons c cs)
  then show ?case by (cases k) (auto split: if_splits)
qed

lemma find_from_Some:
  "find_from needle xs p = Some q \<Longrightarrow>
     p \<le> q \<and> q - p \<le> length xs \<and> prefix needle (drop (q - p) xs) \<and>
     (\<forall>k < q - p. \<not> prefix needle (drop k xs))"
proof (induction xs arbitrary: p q)
  case Nil
  then show ?case by (auto split: if_splits)
next
  case (Cons c cs)
  show ?case
  proof (cases "prefix needle (c # cs)")
    case True
    with Cons.prems show ?thesis by simp
  next
    case False
    with Cons.prems have r: "find_from needle cs (Suc p) = Some q" by simp
    from Cons.IH [OF r] have ih: "Suc p \<le> q" "q - Suc p \<le> length cs"
      "prefix needle (drop (q - Suc p) cs)" "\<forall>k < q - Suc p. \<not> prefix needle (drop k cs)" by simp_all
    from ih(1) have e: "q - p = Suc (q - Suc p)" by simp
    have "\<forall>k < q - p. \<not> prefix needle (drop k (c # cs))"
    proof (intro allI impI)
      fix k assume k: "k < q - p"
      show "\<not> prefix needle (drop k (c # cs))"
      proof (cases k)
        case 0
        with False show ?thesis by simp
      next
        case (Suc k')
        with k e ih(4) show ?thesis by simp
      qed
    qed
    with ih e show ?thesis by simp
  qed
qed

lemma indexOf_None:
  assumes "indexOf hay needle i = None" "i \<le> p" "p \<le> length hay"
  shows "\<not> prefix needle (drop p hay)"
proof -
  from assms have i: "i \<le> length hay" by simp
  with assms have "find_from needle (drop i hay) i = None" by (simp add: indexOf_def min_def)
  from find_from_None [OF this, of "p - i"] assms i show ?thesis by simp
qed

lemma indexOf_Some:
  assumes "indexOf hay needle i = Some q" "i \<le> length hay"
  shows "i \<le> q \<and> q \<le> length hay \<and> prefix needle (drop q hay) \<and>
         (\<forall>p. i \<le> p \<and> p < q \<longrightarrow> \<not> prefix needle (drop p hay))"
proof -
  from assms have f: "find_from needle (drop i hay) i = Some q" by (simp add: indexOf_def min_def)
  note r = find_from_Some [OF f]
  from r have a1: "i \<le> q" by blast
  from r have a2: "q - i \<le> length (drop i hay)" by blast
  from r have a3: "prefix needle (drop (q - i) (drop i hay))" by blast
  from r have a4: "\<forall>k < q - i. \<not> prefix needle (drop k (drop i hay))" by blast
  from a1 have e: "q - i + i = q" by simp
  from a3 have pq: "prefix needle (drop q hay)" by (simp add: e)
  from a2 a1 assms(2) have le: "q \<le> length hay" by simp
  have "\<forall>p. i \<le> p \<and> p < q \<longrightarrow> \<not> prefix needle (drop p hay)"
  proof (intro allI impI)
    fix p assume h: "i \<le> p \<and> p < q"
    then have lt: "p - i < q - i" and pe: "p - i + i = p" by auto
    from a4 lt have "\<not> prefix needle (drop (p - i) (drop i hay))" by blast
    then show "\<not> prefix needle (drop p hay)" by (simp add: pe)
  qed
  with a1 le pq show ?thesis by blast
qed

lemma prefix_nonempty_bound:
  "needle \<noteq> [] \<Longrightarrow> prefix needle (drop p hay) \<Longrightarrow> p < length hay"
  by (cases "p < length hay") auto

lemma filter_upt_skip:
  assumes "i \<le> q" "q \<le> n" "\<forall>p. i \<le> p \<and> p < q \<longrightarrow> \<not> P p"
  shows "filter P [i..<n] = filter P [q..<n]"
proof -
  have "[i..<n] = [i..<q] @ [q..<n]" using assms(1,2) by (metis le_Suc_ex upt_add_eq_append)
  moreover have "filter P [i..<q] = []" using assms(3) by (auto simp: filter_empty_conv)
  ultimately show ?thesis by simp
qed

lemma search_loop_total:
  assumes ne: "needle \<noteq> []"
  shows "search_loop hay needle eps i ms =
           Some (ms @ map (mk_match needle eps)
                   (filter (\<lambda>p. prefix needle (drop p hay) \<and>
                                 matchingElements eps p (p + length needle) \<noteq> [])
                      [i..<length hay]))"
proof (induction "length hay - i" arbitrary: i ms rule: less_induct)
  case less
  show ?case
  proof (cases "indexOf hay needle i")
    case None
    have "filter (\<lambda>p. prefix needle (drop p hay) \<and>
             matchingElements eps p (p + length needle) \<noteq> []) [i..<length hay] = []"
    proof (cases "i \<le> length hay")
      case True
      then show ?thesis using indexOf_None [OF None] by (auto simp: filter_empty_conv)
    next
      case False
      then show ?thesis by simp
    qed
    with None show ?thesis by (subst search_loop.simps) simp
  next
    case (Some q)
    have il: "i \<le> length hay"
    proof (rule ccontr)
      assume "\<not> i \<le> length hay"
      with Some ne show False by (simp add: indexOf_def min_def)
    qed
    note r = indexOf_Some [OF Some il]
    from r have iq: "i \<le> q" and pq: "prefix needle (drop q hay)"
      and skip: "\<forall>p. i \<le> p \<and> p < q \<longrightarrow> \<not> prefix needle (drop p hay)" by blast+
    from ne pq have ql: "q < length hay" by (rule prefix_nonempty_bound)
    let ?P = "\<lambda>p. prefix needle (drop p hay) \<and> matchingElements eps p (p + length needle) \<noteq> []"
    have f1: "filter ?P [i..<length hay] = filter ?P [q..<length hay]"
      using iq ql skip by (intro filter_upt_skip) auto
    have f2: "[q..<length hay] = q # [Suc q..<length hay]" using ql by (simp add: upt_rec)
    have dec: "length hay - (q + 1) < length hay - i" using iq ql by simp
    show ?thesis
    proof (cases "matchingElements eps q (q + length needle) = []")
      case True
      with Some less [OF dec] pq f1 f2 show ?thesis
        by (subst search_loop.simps) (simp add: Let_def)
    next
      case False
      with Some less [OF dec] pq f1 f2 show ?thesis
        by (subst search_loop.simps) (simp add: Let_def mk_match_def)
    qed
  qed
qed

lemma search_loop_empty_needle:
  assumes "search_loop hay needle eps i ms = Some y"
  shows "needle \<noteq> []"
proof (rule search_loop.raw_induct [where P = "\<lambda>h n e j m z. n \<noteq> []", OF _ assms])
  fix f :: "jstring \<Rightarrow> jstring \<Rightarrow> 'a elementPosition list \<Rightarrow> nat \<Rightarrow> 'a textMatch list
              \<Rightarrow> 'a textMatch list option"
  fix h n e j m z
  assume ih: "\<And>h n e j m z. f h n e j m = Some z \<Longrightarrow> n \<noteq> []"
  assume body: "(case indexOf h n j of None \<Rightarrow> Some m
        | Some foundIndex \<Rightarrow>
            let mStart = foundIndex; mEnd = foundIndex + length n;
                found = matchingElements e mStart mEnd
            in f h n e (foundIndex + 1)
                (if 0 < length found
                 then m @ [\<lparr>elements = found, matchStart = mStart, matchEnd = mEnd,
                             searchText = n\<rparr>]
                 else m)) = Some z"
  show "n \<noteq> []"
  proof
    assume em: "n = []"
    then obtain q where "indexOf h n j = Some q"
      by (cases "drop (min j (length h)) h") (simp_all add: indexOf_def Let_def)
    with body em obtain m' where "f h [] e (q + 1) m' = Some z"
      by (simp add: Let_def split: if_splits)
    from ih [OF this] show False by simp
  qed
qed

lemma occurrences_nonempty_needle:
  assumes "needle \<noteq> []"
  shows "occurrences hay needle = filter (\<lambda>p. prefix needle (drop p hay)) [0..<length hay]"
  using assms by (simp add: occurrences_def)

lemma findText_overlays:
  assumes "findTextInTextLayer pageTextMaps (text_hl h) (pageNumber h) = Some ms"
    and "hasTextLayer (pageNumber h)"
  shows "applyTextHighlights pageTextMaps hasTextLayer [h] current =
           Some (concat (map (\<lambda>m. map (\<lambda>e. \<lparr>page_div = pageNumber h, bounds_div = bounds_ep e,
                                              active_div = (0 = current)\<rparr>) (elements m)) ms))"
proof -
  have "concat (map (\<lambda>e. [\<lparr>page_div = pageNumber h, bounds_div = bounds_ep e,
                                              active_div = (0 = current)\<rparr>]) es)
        = map (\<lambda>e. \<lparr>page_div = pageNumber h, bounds_div = bounds_ep e,
                                              active_div = (0 = current)\<rparr>) es" for es :: "'a elementPosition list"
    by (induction es) simp_all
  with assms show ?thesis
    by (simp add: applyTextHighlights_def divsFor_def)
qed

lemma length_toLowerCase_below_256:
  "\<forall>u \<in> set s. below_256 u \<Longrightarrow> length (toLowerCase s) = length s"
proof (induction s)
  case Nil
  then show ?case by (simp add: toLowerCase_def)
next
  case (Cons u s)
  obtain hi lo where u: "u = Unit hi lo" by (cases u)
  with Cons show ?case by (simp add: toLowerCase_def)
qed

lemma joined_text_below_256:
  "\<forall>td \<in> set tds. \<forall>u \<in> set (text_td td). below_256 u \<Longrightarrow>
     \<forall>u \<in> set (joined_text tds). below_256 u"
  by (induction tds) (auto simp: js_def low_def)

text \<open>
  For a page whose text items hold code units below 256 only, and a highlight whose
  text holds such code units only and is not empty in lower case and trimmed,
  \<open>findTextInTextLayer\<close> returns, in ascending order, one match for each position at
  which that form occurs in the lower-cased page text and for no other position; each
  match carries a non-empty list of covering elements, and \<open>applyTextHighlights\<close> draws
  one overlay for every element of every such match.
\<close>

lemma every_occurrence_below_256:
  assumes "pageTextMaps (pageNumber h) = Some textMap"
    and "trim (toLowerCase (text_hl h)) \<noteq> []"
    and "\<forall>td \<in> set textMap. \<forall>u \<in> set (text_td td). below_256 u"
    and "\<forall>u \<in> set (text_hl h). below_256 u"
  shows "\<exists>ms. findTextInTextLayer pageTextMaps (text_hl h) (pageNumber h) = Some ms \<and>
           map matchStart ms =
             occurrences (toLowerCase (fst (elementPositions_loop (enumerate 0 textMap) ([], []))))
                         (trim (toLowerCase (text_hl h))) \<and>
           (\<forall>m \<in> set ms.
              elements m \<noteq> [] \<and>
              elements m = matchingElements (snd (elementPositions_loop (enumerate 0 textMap) ([], [])))
                             (matchStart m) (matchEnd m) \<and>
              matchEnd m = matchStart m + length (trim (toLowerCase (text_hl h))) \<and>
              searchText m = trim (toLowerCase (text_hl h))) \<and>
           (hasTextLayer (pageNumber h) \<longrightarrow>
              applyTextHighlights pageTextMaps hasTextLayer [h] current =
                Some (concat (map (\<lambda>m. map (\<lambda>e. \<lparr>page_div = pageNumber h,
                                                    bounds_div = bounds_ep e,
                                                    active_div = (0 = current)\<rparr>)
                                          (elements m)) ms)))"
proof -
  let ?needle = "trim (toLowerCase (text_hl h))"
  let ?hay = "toLowerCase (joined_text textMap)"
  let ?eps = "positions_from 0 0 textMap"
  let ?ms = "map (mk_match ?needle ?eps) (occurrences ?hay ?needle)"
  from assms(3) have len: "length ?hay = length (joined_text textMap)"
    by (intro length_toLowerCase_below_256 joined_text_below_256)
  have "filter (\<lambda>p. prefix ?needle (drop p ?hay) \<and>
            matchingElements ?eps p (p + length ?needle) \<noteq> []) [0..<length ?hay]
        = filter (\<lambda>p. prefix ?needle (drop p ?hay)) [0..<length ?hay]"
    by (rule filter_cong) (simp_all add: matching_covered len)
  then have run: "search_loop ?hay ?needle ?eps 0 [] = Some ?ms"
    using assms(2) by (simp add: search_loop_total occurrences_nonempty_needle)
  have res: "findTextInTextLayer pageTextMaps (text_hl h) (pageNumber h) = Some ?ms"
    using assms(1) run by (simp add: findTextInTextLayer_def loop_from_empty)
  have starts: "map matchStart ?ms = occurrences ?hay ?needle"
    by (simp add: mk_match_def comp_def)
  have each: "\<forall>m \<in> set ?ms. elements m \<noteq> [] \<and>
      elements m = matchingElements ?eps (matchStart m) (matchEnd m) \<and>
      matchEnd m = matchStart m + length ?needle \<and> searchText m = ?needle"
  proof
    fix m assume "m \<in> set ?ms"
    then obtain p where p: "p \<in> set (occurrences ?hay ?needle)"
      and m: "m = mk_match ?needle ?eps p"
      by auto
    from p assms(2) have "p < length (joined_text textMap)"
      by (simp add: occurrences_nonempty_needle len)
    from matching_covered [OF this] m
    show "elements m \<noteq> [] \<and>
      elements m = matchingElements ?eps (matchStart m) (matchEnd m) \<and>
      matchEnd m = matchStart m + length ?needle \<and> searchText m = ?needle"
      by (simp add: mk_match_def)
  qed
  have draw: "hasTextLayer (pageNumber h) \<longrightarrow>
      applyTextHighlights pageTextMaps hasTextLayer [h] current =
        Some (concat (map (\<lambda>m. map (\<lambda>e. \<lparr>page_div = pageNumber h, bounds_div = bounds_ep e,
                                            active_div = (0 = current)\<rparr>) (elements m)) ?ms))"
    using findText_overlays [OF res] by blast
  show ?thesis
    unfolding loop_from_empty fst_conv snd_conv
    using res starts each draw by (intro exI [of _ ?ms] conjI)
qed

text \<open>
  C10, on the code. The offsets of the matches are offsets of the lower-cased page text,
  and the element positions are offsets of the page text as it is. On the page with the
  item of eight letters U+0130 and \<open>ab\<close>, the text \<open>ab\<close> occurs once, at offset 8 and
  inside the item; in lower case each of the eight letters is two code units, the match
  is found at offset 16, behind the end of the item at 10, the intersection test selects
  no element and no match is returned. And for a search text that is empty once
  trimmed, as a text of one space, which occurs three times on the sample page,
  \<open>indexOf\<close> finds the empty text at every start position and the loop never leaves.
\<close>

theorem lowercase_offsets_lose_occurrence:
  "occurrences (fst (elementPositions_loop (enumerate 0
        [\<lparr>text_td = replicate 8 (Unit (CHR 0x01) (CHR 0x30)) @ (js ''ab''),
          bounds_td = 10::nat\<rparr>]) ([], []))) (js ''ab'') = [8] \<and>
   snd (elementPositions_loop (enumerate 0
        [\<lparr>text_td = replicate 8 (Unit (CHR 0x01) (CHR 0x30)) @ (js ''ab''),
          bounds_td = 10::nat\<rparr>]) ([], []))
     = [\<lparr>startIndex = 0, endIndex = 10, bounds_ep = 10,
         text_ep = replicate 8 (Unit (CHR 0x01) (CHR 0x30)) @ (js ''ab''), index_ep = 0\<rparr>] \<and>
   occurrences (toLowerCase (fst (elementPositions_loop (enumerate 0
        [\<lparr>text_td = replicate 8 (Unit (CHR 0x01) (CHR 0x30)) @ (js ''ab''),
          bounds_td = 10::nat\<rparr>]) ([], [])))) (js ''ab'') = [16] \<and>
   findTextInTextLayer dotted_page (js ''ab'') 1 = Some [] \<and>
   occurrences (fst (elementPositions_loop (enumerate 0
        [\<lparr>text_td = (js ''Hello''), bounds_td = 10::nat\<rparr>,
         \<lparr>text_td = (js ''world hello''), bounds_td = 20\<rparr>]) ([], []))) (js '' '') = [5, 11, 17] \<and>
   findTextInTextLayer sample_page (js '' '') 1 = None \<and>
   findTextInTextLayer sample_page [] 1 = None"
proof -
  have o1: "occurrences (fst (elementPositions_loop (enumerate 0
        [\<lparr>text_td = replicate 8 (Unit (CHR 0x01) (CHR 0x30)) @ (js ''ab''),
          bounds_td = 10::nat\<rparr>]) ([], []))) (js ''ab'') = [8]"
    by code_simp
  have e1: "snd (elementPositions_loop (enumerate 0
        [\<lparr>text_td = replicate 8 (Unit (CHR 0x01) (CHR 0x30)) @ (js ''ab''),
          bounds_td = 10::nat\<rparr>]) ([], []))
     = [\<lparr>startIndex = 0, endIndex = 10, bounds_ep = 10,
         text_ep = replicate 8 (Unit (CHR 0x01) (CHR 0x30)) @ (js ''ab''), index_ep = 0\<rparr>]"
    by code_simp
  have o2: "occurrences (toLowerCase (fst (elementPositions_loop (enumerate 0
        [\<lparr>text_td = replicate 8 (Unit (CHR 0x01) (CHR 0x30)) @ (js ''ab''),
          bounds_td = 10::nat\<rparr>]) ([], [])))) (js ''ab'') = [16]"
    by code_simp
  have f1: "findTextInTextLayer dotted_page (js ''ab'') 1 = Some []"
    by code_simp
  have o3: "occurrences (fst (elementPositions_loop (enumerate 0
        [\<lparr>text_td = (js ''Hello''), bounds_td = 10::nat\<rparr>,
         \<lparr>text_td = (js ''world hello''), bounds_td = 20\<rparr>]) ([], []))) (js '' '') = [5, 11, 17]"
    by code_simp
  have t: "trim (toLowerCase (js '' '')) = []" "trim (toLowerCase []) = []" by code_simp+
  have n: "findTextInTextLayer sample_page (js '' '') 1 \<noteq> Some y"
    "findTextInTextLayer sample_page [] 1 \<noteq> Some y" for y
    using search_loop_empty_needle [of _ "[]" _ 0 "[]" y]
    by (auto simp add: findTextInTextLayer_def sample_page_def t split: prod.splits)
  have f2: "findTextInTextLayer sample_page (js '' '') 1 = None"
    using n(1) by (cases "findTextInTextLayer sample_page (js '' '') 1") auto
  have f3: "findTextInTextLayer sample_page [] 1 = None"
    using n(2) by (cases "findTextInTextLayer sample_page [] 1") auto
  from o1 e1 o2 f1 o3 f2 f3 show ?thesis by (intro conjI)
qed

section \<open>Evaluating the chat pipeline\<close>

lemma handleSubmit_highlights:
  assumes "trim (input c) \<noteq> []" "contractText c \<noteq> []" "\<not> isLoading c"
  shows "snd (handleSubmit t1 t2 (ReplyStream a) c) =
           Some (if textsToHighlight a (input c) \<noteq> []
                 then findExactTextHighlights (contractText c) (textsToHighlight a (input c))
                 else [])"
    and "contractText (fst (handleSubmit t1 t2 (ReplyStream a) c)) = contractText c"
    and "isLoading (fst (handleSubmit t1 t2 (ReplyStream a) c)) = False"
  using assms by (simp_all add: handleSubmit_def Let_def)

lemma submit_Some:
  assumes "snd (handleSubmit t1 t2 reply c) = Some hs"
  shows "submit t1 t2 reply (c, v) = (fst (handleSubmit t1 t2 reply c), addHighlights hs v)"
  using assms by (cases "handleSubmit t1 t2 reply c") (simp add: submit_def)

lemma fallback_is_gated:
  "explicitTexts assistantContent \<noteq> [] \<Longrightarrow>
     textsToHighlight assistantContent question = explicitTexts assistantContent"
  by (simp add: textsToHighlight_def Let_def)

lemma termination_question: "trim (js ''When does the agreement end?'') \<noteq> []"
  by code_simp

lemma termination_texts:
  "textsToHighlight termination_answer (js ''When does the agreement end?'') =
     [(js ''terminate upon 30 days written notice''), (js ''terminate upon 30 days written notice''),
      (js ''terminate upon 30 days written notice'')]"
  by code_simp

lemma termination_found:
  "findExactTextHighlights termination_text
     [(js ''terminate upon 30 days written notice''), (js ''terminate upon 30 days written notice''),
      (js ''terminate upon 30 days written notice'')] =
     [\<lparr>id_hl = (js ''exact-highlight-0-36''), pageNumber = 1,
        text_hl = (js ''terminate upon 30 days written notice''),
        bounds_hl = \<lparr>x_px = 50, y_px = 100, width_px = 222, height_px = 16\<rparr>\<rparr>,
      \<lparr>id_hl = (js ''exact-highlight-1-36''), pageNumber = 1,
        text_hl = (js ''terminate upon 30 days written notice''),
        bounds_hl = \<lparr>x_px = 50, y_px = 100, width_px = 222, height_px = 16\<rparr>\<rparr>,
      \<lparr>id_hl = (js ''exact-highlight-2-36''), pageNumber = 1,
        text_hl = (js ''terminate upon 30 days written notice''),
        bounds_hl = \<lparr>x_px = 50, y_px = 100, width_px = 222, height_px = 16\<rparr>\<rparr>]"
  by code_simp

lemma termination_extracted: "extractTextFromPDF termination_doc = Inr termination_text"
  by code_simp

text \<open>
  C1, on the code. For the one-page agreement and the answer that cites the phrase
  between a pair of markers, extraction followed by resolution hands three highlights to
  the viewer, not one: the perfect-format pattern, the missing-closing-marker pattern and
  the extra-content pattern each push the phrase. All three are on page 1 with the
  phrase as text; their ids differ in the position of the text in the extracted list.
\<close>

theorem single_citation_three_highlights:
  "extractTextFromPDF termination_doc = Inr termination_text \<and>
   snd (handleSubmit 1000 1001 (ReplyStream termination_answer) termination_chat)
     = Some
        [\<lparr>id_hl = (js ''exact-highlight-0-36''), pageNumber = 1,
           text_hl = (js ''terminate upon 30 days written notice''),
           bounds_hl = \<lparr>x_px = 50, y_px = 100, width_px = 222, height_px = 16\<rparr>\<rparr>,
         \<lparr>id_hl = (js ''exact-highlight-1-36''), pageNumber = 1,
           text_hl = (js ''terminate upon 30 days written notice''),
           bounds_hl = \<lparr>x_px = 50, y_px = 100, width_px = 222, height_px = 16\<rparr>\<rparr>,
         \<lparr>id_hl = (js ''exact-highlight-2-36''), pageNumber = 1,
           text_hl = (js ''terminate upon 30 days written notice''),
           bounds_hl = \<lparr>x_px = 50, y_px = 100, width_px = 222, height_px = 16\<rparr>\<rparr>]"
proof -
  have a: "trim (input termination_chat) \<noteq> []" "contractText termination_chat \<noteq> []"
    "\<not> isLoading termination_chat"
    using termination_question by (simp_all add: termination_chat_def termination_text_def)
  have i: "input termination_chat = (js ''When does the agreement end?'')"
    "contractText termination_chat = termination_text"
    by (simp_all add: termination_chat_def)
  from handleSubmit_highlights(1) [OF a] termination_extracted show ?thesis
    by (simp add: i termination_texts termination_found)
qed

text \<open>
  C2, on the code. For an answer with one well-formed citation followed by more text,
  the perfect-format pattern extracts the cited span, and the missing-closing-marker
  pattern then adds the same span again and the uncited text after the closing marker;
  the extra-content pattern adds the span a third time.
\<close>

theorem degraded_layer_adds_spans:
  "pattern_texts match_perfect payment_answer = [(js ''Payment is due in 30 days'')] \<and>
   pattern_texts match_missing_close payment_answer =
     [(js ''Payment is due in 30 days''), (js ''and nothing else.'')] \<and>
   explicitTexts payment_answer =
     [(js ''Payment is due in 30 days''), (js ''Payment is due in 30 days''), (js ''and nothing else.''),
      (js ''Payment is due in 30 days'')]"
  by code_simp

text \<open>
  C3, on the code. In the three-page document the phrase occurs on page 3 only, at the
  start of the page. The offset of the match is one of the cleaned contract text, in
  which the two line feeds before each later delimiter are one space; cut at that offset,
  the contract text as it came ends inside the delimiter of page 3, and the highlight
  gets page 2.
\<close>

theorem third_page_match_gets_page_two:
  "extractTextFromPDF three_page_doc = Inr three_page_text \<and>
   pageTextOf (three_page_doc ! 2) = (js ''hello world'') \<and>
   indexOf (pageTextOf (three_page_doc ! 0)) (js ''hello world'') 0 = None \<and>
   indexOf (pageTextOf (three_page_doc ! 1)) (js ''hello world'') 0 = None \<and>
   findExactTextHighlights three_page_text [(js ''hello world'')] =
     [\<lparr>id_hl = (js ''exact-highlight-0-68''), pageNumber = 2, text_hl = (js ''hello world''),
        bounds_hl = \<lparr>x_px = 50, y_px = 100, width_px = 66, height_px = 16\<rparr>\<rparr>]"
  by code_simp

text \<open>
  C7. When a submission with a streamed answer has handed a highlight list to the
  viewer, submitting the same question again with the same answer, on the state the first
  submission left and at any later clock readings, hands over the same list: the same
  ids and the same pairs of page number and text.
\<close>

theorem resolution_repeatable:
  assumes "handleSubmit t1 t2 (ReplyStream answer) s = (s', Some hs)"
  shows "\<exists>s'' hs'. handleSubmit t3 t4 (ReplyStream answer) (s'\<lparr>input := input s\<rparr>) = (s'', Some hs') \<and>
           hs' = hs \<and> map id_hl hs' = map id_hl hs \<and>
           map (\<lambda>h. (pageNumber h, text_hl h)) hs' = map (\<lambda>h. (pageNumber h, text_hl h)) hs"
proof -
  from assms have g: "\<not> (trim (input s) = [] \<or> contractText s = [] \<or> isLoading s)"
    by (auto simp: handleSubmit_def)
  from assms g have s': "contractText s' = contractText s" "isLoading s' = False"
    by (auto simp: handleSubmit_def Let_def)
  from assms g have hs: "hs = (if length (textsToHighlight answer (input s)) > 0 \<and> contractText s \<noteq> []
                               then findExactTextHighlights (contractText s) (textsToHighlight answer (input s))
                               else [])"
    by (auto simp: handleSubmit_def Let_def)
  from g s' have g': "\<not> (trim (input (s'\<lparr>input := input s\<rparr>)) = [] \<or> contractText (s'\<lparr>input := input s\<rparr>) = []
      \<or> isLoading (s'\<lparr>input := input s\<rparr>))" by simp
  from g' s' hs show ?thesis
    by (simp add: handleSubmit_def Let_def)
qed

lemma quoting_extracted: "extractTextFromPDF quoting_doc = Inr quoting_text"
  by code_simp

lemma quoting_question: "trim (js ''What does it say?'') \<noteq> []"
  by code_simp

lemma quoting_texts:
  "textsToHighlight quoting_answer (js ''What does it say?'') = [(js ''alpha beta gamma''), (js ''delta epsilon zeta'')]"
  by code_simp

lemma quoting_found:
  "findExactTextHighlights quoting_text [(js ''alpha beta gamma''), (js ''delta epsilon zeta'')] = quoting_highlights"
  by code_simp

lemma quoting_first_run:
  "snd (handleSubmit t1 t2 (ReplyStream quoting_answer) quoting_chat) = Some quoting_highlights"
  "contractText (fst (handleSubmit t1 t2 (ReplyStream quoting_answer) quoting_chat)) = quoting_text"
  "isLoading (fst (handleSubmit t1 t2 (ReplyStream quoting_answer) quoting_chat)) = False"
proof -
  have a: "trim (input quoting_chat) \<noteq> []" "contractText quoting_chat \<noteq> []" "\<not> isLoading quoting_chat"
    using quoting_question by (simp_all add: quoting_chat_def quoting_text_def)
  have i: "input quoting_chat = (js ''What does it say?'')" "contractText quoting_chat = quoting_text"
    by (simp_all add: quoting_chat_def)
  from handleSubmit_highlights [OF a]
  show "snd (handleSubmit t1 t2 (ReplyStream quoting_answer) quoting_chat) = Some quoting_highlights"
    "contractText (fst (handleSubmit t1 t2 (ReplyStream quoting_answer) quoting_chat)) = quoting_text"
    "isLoading (fst (handleSubmit t1 t2 (ReplyStream quoting_answer) quoting_chat)) = False"
    by (simp_all add: i quoting_texts quoting_found)
qed

lemma reask_navigated_eval:
  "snd reask_navigated = \<lparr>highlights = quoting_highlights, currentHighlight = 1\<rparr>"
  "contractText (fst reask_navigated) = quoting_text"
  "isLoading (fst reask_navigated) = False"
  by (simp_all add: reask_navigated_def submit_Some [OF quoting_first_run(1)] quoting_first_run
        addHighlights_def handleHighlightNavigation_def initialViewerState_def js_rem_def
        quoting_highlights_def)

lemma reask_second_run:
  "snd (handleSubmit t1 t2 (ReplyStream quoting_answer)
          ((fst reask_navigated)\<lparr>input := input quoting_chat\<rparr>)) = Some quoting_highlights"
proof -
  let ?c = "(fst reask_navigated)\<lparr>input := input quoting_chat\<rparr>"
  have i: "input ?c = (js ''What does it say?'')" "contractText ?c = quoting_text"
    by (simp_all add: quoting_chat_def reask_navigated_eval)
  have a: "trim (input ?c) \<noteq> []" "contractText ?c \<noteq> []" "\<not> isLoading ?c"
    using quoting_question by (simp_all add: i reask_navigated_eval) (simp add: quoting_text_def)
  from handleSubmit_highlights(1) [OF a] show ?thesis
    by (simp only: i quoting_texts quoting_found) simp
qed

theorem resolution_repeatable_witness:
  "snd (handleSubmit 1 2 (ReplyStream quoting_answer) quoting_chat) = Some quoting_highlights \<and>
   snd (handleSubmit 3 4 (ReplyStream quoting_answer)
          ((fst (handleSubmit 1 2 (ReplyStream quoting_answer) quoting_chat))
             \<lparr>input := input quoting_chat\<rparr>)) = Some quoting_highlights"
proof -
  have v: "snd (handleSubmit 1 2 (ReplyStream quoting_answer) quoting_chat) = Some quoting_highlights"
    by (rule quoting_first_run)
  then have h: "handleSubmit 1 2 (ReplyStream quoting_answer) quoting_chat =
      (fst (handleSubmit 1 2 (ReplyStream quoting_answer) quoting_chat), Some quoting_highlights)"
    by (simp add: prod_eq_iff)
  from resolution_repeatable [OF h, of 3 4] v show ?thesis by auto
qed

text \<open>
  C8 fails on the code. After the question is asked and the user has stepped to the
  second highlight, asking again with the same answer reproduces the same list, and the
  active highlight is the first one again: its id is not the id that was active.
\<close>

theorem reask_changes_active_highlight:
  "highlights (snd reask_again) = highlights (snd reask_navigated) \<and>
   id_hl (highlights (snd reask_navigated) ! nat (currentHighlight (snd reask_navigated)))
     = (js ''exact-highlight-1-47'') \<and>
   id_hl (highlights (snd reask_again) ! nat (currentHighlight (snd reask_again)))
     = (js ''exact-highlight-0-15'') \<and>
   id_hl (highlights (snd reask_again) ! nat (currentHighlight (snd reask_again)))
     \<noteq> id_hl (highlights (snd reask_navigated) ! nat (currentHighlight (snd reask_navigated)))"
proof -
  have again: "snd reask_again = \<lparr>highlights = quoting_highlights, currentHighlight = 0\<rparr>"
    by (simp add: reask_again_def submit_Some [OF reask_second_run] reask_navigated_eval
          addHighlights_def quoting_highlights_def)
  show ?thesis
    by (simp add: again reask_navigated_eval) (simp add: quoting_highlights_def js_def low_def)
qed

section \<open>Ids of resolved highlights\<close>

lemma digit_char_facts:
  assumes "d < 10"
  shows "isDigit (digit_char d)" and "digit_value (digit_char d) = d"
proof -
  from assms have "d \<in> {0, 1, 2, 3, 4, 5, 6, 7, 8, 9}" by auto
  then show "isDigit (digit_char d)" and "digit_value (digit_char d) = d"
    by (auto simp: digit_char_def isDigit_def js_def low_def)
qed

lemma toString_digits: "\<forall>c \<in> set (toString n). isDigit c"
proof (induction n rule: toString.induct)
  case (1 n)
  show ?case
  proof (cases "n < 10")
    case True
    then show ?thesis by (subst toString.simps) (simp add: digit_char_facts)
  next
    case False
    then have "n mod 10 < 10" by simp
    with False 1 show ?thesis by (subst toString.simps) (simp add: digit_char_facts)
  qed
qed

lemma parseInt_snoc: "parseInt (ds @ [c]) = 10 * parseInt ds + digit_value c"
  by (simp add: parseInt_def)

lemma parseInt_toString: "parseInt (toString n) = n"
proof (induction n rule: toString.induct)
  case (1 n)
  show ?case
  proof (cases "n < 10")
    case True
    then show ?thesis
      by (subst toString.simps) (simp add: parseInt_def digit_char_facts)
  next
    case False
    then have m: "n mod 10 < 10" by simp
    from False 1 have "parseInt (toString (n div 10)) = n div 10" by simp
    with False m show ?thesis
      by (subst toString.simps) (simp add: parseInt_snoc digit_char_facts)
  qed
qed

lemma id_index_of_id:
  "id_index ((js ''exact-highlight-'') @ toString i @ (js ''-'') @ rest) = i"
proof -
  have d: "drop 16 ((js ''exact-highlight-'') @ toString i @ (js ''-'') @ rest)
             = toString i @ (js ''-'') @ rest"
    by simp
  have m: "\<not> isDigit (low (CHR ''-''))"
    by (simp add: isDigit_def js_def low_def)
  have "takeWhile isDigit (toString i @ (js ''-'') @ rest) = toString i"
    using toString_digits [of i] m by (simp add: takeWhile_append2 js_Cons js_Nil)
  with d show ?thesis by (simp add: id_index_def parseInt_toString)
qed

lemma highlightsFor_index:
  assumes "h \<in> set (highlightsFor contractTxt (i, t))"
  shows "id_index (id_hl h) = i"
proof -
  from assms obtain f where
    "id_hl h = (js ''exact-highlight-'') @ toString i @ (js ''-'') @ toString f"
    by (auto simp: highlightsFor_def Let_def split: if_splits option.splits)
  then show ?thesis by (simp only: id_index_of_id)
qed

lemma highlightsFor_short: "length (highlightsFor contractTxt e) \<le> 1"
  by (cases e) (simp add: highlightsFor_def Let_def split: option.splits)

lemma distinct_ids_entries:
  "distinct (map fst es) \<Longrightarrow>
     distinct (map id_hl (concat (map (highlightsFor contractTxt) es)))"
proof (induction es)
  case Nil
  then show ?case by simp
next
  case (Cons e es)
  obtain i t where e: "e = (i, t)" by (cases e)
  from Cons.prems e have fresh: "i \<notin> fst ` set es" and rest: "distinct (map fst es)"
    by simp_all
  have one: "distinct (map id_hl (highlightsFor contractTxt e))"
    using highlightsFor_short [of contractTxt e]
    by (cases "highlightsFor contractTxt e") (simp_all add: le_Suc_eq)
  have apart: "id_hl h \<noteq> id_hl h'"
    if h: "h \<in> set (highlightsFor contractTxt e)"
      and h': "h' \<in> set (concat (map (highlightsFor contractTxt) es))" for h h'
  proof
    assume eq: "id_hl h = id_hl h'"
    from h e have "id_index (id_hl h) = i" by (simp add: highlightsFor_index)
    moreover from h' obtain i' t' where "(i', t') \<in> set es"
      and "h' \<in> set (highlightsFor contractTxt (i', t'))" by auto
    then have "id_index (id_hl h') = i'" and "i' \<in> fst ` set es"
      by (simp add: highlightsFor_index, force)
    ultimately show False using eq fresh by simp
  qed
  from one Cons.IH [OF rest] apart show ?case by auto
qed

lemma distinct_ids: "distinct (map id_hl (findExactTextHighlights contractTxt exactTexts))"
  by (simp add: findExactTextHighlights_def distinct_ids_entries)

text \<open>
  C8, as the code has it. Let a submission with a streamed answer have handed a
  highlight list to the viewer, and let one of its highlights be active in the viewer.
  Submitting the same question again with the same answer, on the state the first
  submission left and at any later clock readings, leaves the viewer with an equal list
  and with its first highlight active; the highlight that was active before, identified
  by its id, is the active one afterwards exactly when it was the first.
\<close>

theorem reresolution_activates_first:
  assumes "handleSubmit t1 t2 (ReplyStream answer) c = (c', Some hs)"
    and "highlights v = hs"
    and "0 \<le> currentHighlight v" and "currentHighlight v < int (length hs)"
  shows "highlights (snd (submit t3 t4 (ReplyStream answer) (c'\<lparr>input := input c\<rparr>, v)))
           = highlights v \<and>
         currentHighlight (snd (submit t3 t4 (ReplyStream answer) (c'\<lparr>input := input c\<rparr>, v)))
           = 0 \<and>
         (id_hl (highlights (snd (submit t3 t4 (ReplyStream answer) (c'\<lparr>input := input c\<rparr>, v))) !
                 nat (currentHighlight
                        (snd (submit t3 t4 (ReplyStream answer) (c'\<lparr>input := input c\<rparr>, v)))))
            = id_hl (highlights v ! nat (currentHighlight v))
          \<longleftrightarrow> currentHighlight v = 0)"
proof -
  let ?c = "c'\<lparr>input := input c\<rparr>"
  from assms(1) have g: "trim (input c) \<noteq> []" "contractText c \<noteq> []" "\<not> isLoading c"
    by (auto simp: handleSubmit_def)
  from handleSubmit_highlights [OF g, of t1 t2 answer] assms(1)
  have hs: "hs = (if textsToHighlight answer (input c) \<noteq> []
                  then findExactTextHighlights (contractText c) (textsToHighlight answer (input c))
                  else [])"
    and c': "contractText c' = contractText c" "isLoading c' = False"
    by simp_all
  from g c' have g': "trim (input ?c) \<noteq> []" "contractText ?c \<noteq> []" "\<not> isLoading ?c"
    by simp_all
  from handleSubmit_highlights(1) [OF g', of t3 t4 answer] hs c'
  have again: "snd (handleSubmit t3 t4 (ReplyStream answer) ?c) = Some hs" by simp
  from assms(3,4) have ne: "hs \<noteq> []" by auto
  have after: "snd (submit t3 t4 (ReplyStream answer) (?c, v))
                 = \<lparr>highlights = hs, currentHighlight = 0\<rparr>"
    using ne by (simp add: submit_Some [OF again] addHighlights_def)
  from hs have "distinct (map id_hl hs)" by (simp add: distinct_ids)
  moreover from assms(3,4) ne have "nat (currentHighlight v) < length (map id_hl hs)"
    "0 < length (map id_hl hs)" by simp_all
  ultimately have "map id_hl hs ! 0 = map id_hl hs ! nat (currentHighlight v)
                     \<longleftrightarrow> 0 = nat (currentHighlight v)"
    by (simp only: nth_eq_iff_index_eq)
  with assms(3,4) ne have ids: "id_hl (hs ! 0) = id_hl (hs ! nat (currentHighlight v))
                     \<longleftrightarrow> currentHighlight v = 0"
    by (auto simp: nat_eq_iff2)
  from after assms(2) ids show ?thesis by simp
qed

theorem reresolution_activates_first_witness:
  "handleSubmit 1 2 (ReplyStream quoting_answer) quoting_chat
     = (fst reask_navigated, Some quoting_highlights) \<and>
   highlights (snd reask_navigated) = quoting_highlights \<and>
   currentHighlight (snd reask_navigated) = 1 \<and>
   (1::int) < int (length quoting_highlights) \<and>
   highlights (snd reask_again) = highlights (snd reask_navigated) \<and>
   currentHighlight (snd reask_again) = 0 \<and>
   id_hl (highlights (snd reask_again) ! nat (currentHighlight (snd reask_again)))
     \<noteq> id_hl (highlights (snd reask_navigated) ! nat (currentHighlight (snd reask_navigated)))"
proof -
  have f: "fst reask_navigated = fst (handleSubmit 1 2 (ReplyStream quoting_answer) quoting_chat)"
    by (simp add: reask_navigated_def submit_Some [OF quoting_first_run(1)])
  have h: "handleSubmit 1 2 (ReplyStream quoting_answer) quoting_chat
             = (fst reask_navigated, Some quoting_highlights)"
    by (simp add: prod_eq_iff f quoting_first_run(1))
  have v: "highlights (snd reask_navigated) = quoting_highlights"
    "currentHighlight (snd reask_navigated) = 1"
    by (simp_all add: reask_navigated_eval)
  have l: "(1::int) < int (length quoting_highlights)" by (simp add: quoting_highlights_def)
  from v l have r: "0 \<le> currentHighlight (snd reask_navigated)"
    "currentHighlight (snd reask_navigated) < int (length quoting_highlights)" by simp_all
  note t = reresolution_activates_first [OF h v(1) r, of 3 4, folded reask_again_def]
  from t have t1: "highlights (snd reask_again) = highlights (snd reask_navigated)"
    and t2: "currentHighlight (snd reask_again) = 0"
    and t3: "id_hl (highlights (snd reask_again) ! nat (currentHighlight (snd reask_again)))
               = id_hl (highlights (snd reask_navigated) !
                          nat (currentHighlight (snd reask_navigated)))
             \<longleftrightarrow> currentHighlight (snd reask_navigated) = 0"
    by blast+
  from t3 v(2) have t4:
    "id_hl (highlights (snd reask_again) ! nat (currentHighlight (snd reask_again)))
       \<noteq> id_hl (highlights (snd reask_navigated) ! nat (currentHighlight (snd reask_navigated)))"
    by simp
  from h v l t1 t2 t4 show ?thesis by (intro conjI)
qed

end
